theory Spec2Isabelle
  imports Complex_Main "HOL-Library.AList"
begin

section \<open>Data model (types/ontology.ts)\<close>

text \<open>
  JavaScript numbers that hold confidences and metrics are modelled as exact rationals;
  the strength of an extracted relationship, which the extractor accumulates by repeated
  addition, is modelled as a double (see \<open>to_double\<close>). Counts and lengths are natural
  numbers. A \<open>Map<string, V>\<close> is an association list in insertion order:
  \<open>Map.set\<close> is \<open>AList.update\<close> (an existing key keeps its position, a new key is
  appended), \<open>Map.get\<close> is \<open>map_of\<close>, \<open>Map.delete\<close> is \<open>AList.delete\<close>.
  Objects are passed by value: no two stored objects share an array.
\<close>

datatype provenance = Manual | Inferred | Extracted

datatype severity = Critical | Major | Minor

datatype error_type =
  Circular_dependency | Missing_superclass | Constraint_violation | Logical_inconsistency

datatype warning_type =
  Ambiguous_naming | Low_coverage | Redundant_relationship | Orphaned_class

datatype suggestion_type = Merge_classes | Add_relationship | Refine_hierarchy | Add_constraint

datatype impact = High | Medium | Low

datatype property_type = Datatype | Object | Annotation

datatype constraint_type = Restriction | Cardinality | Value | Logical

datatype constraint_severity = SevError | SevWarning | SevInfo

datatype max_cardinality = Bounded int | Unbounded

record OntologyConstraint =
  con_id :: string
  con_type :: constraint_type
  con_expression :: string
  con_description :: string
  con_severity :: constraint_severity

record OntologyProperty =
  prop_id :: string
  prop_name :: string
  prop_description :: "string option"
  prop_domain :: "string list"
  prop_range :: "string list"
  prop_type :: property_type
  card_min :: int
  card_max :: max_cardinality

record OntologyClass =
  cls_id :: string
  cls_name :: string
  cls_description :: "string option"
  superClasses :: "string list"
  subClasses :: "string list"
  cls_properties :: "OntologyProperty list"
  cls_constraints :: "OntologyConstraint list"
  instances :: "string list"
  cls_created :: string
  cls_modified :: string
  cls_confidence :: rat
  cls_source :: provenance

record OntologyRelationship =
  rel_id :: string
  rel_type :: string
  rel_source :: string
  rel_target :: string
  rel_properties :: "(string \<times> string) list"
  rel_confidence :: rat
  bidirectional :: bool
  rel_created :: string
  rel_provenance :: provenance

record Domain =
  dom_id :: string
  dom_name :: string
  dom_description :: string
  dom_scope :: "string list"
  dom_classes :: "string list"
  dom_properties :: "string list"
  dom_relationships :: "string list"
  dom_coverage :: rat
  dom_coherence :: rat

record ValidationError =
  err_type :: error_type
  err_severity :: severity
  err_message :: string
  err_affected :: "string list"
  err_fix :: "string option"

record ValidationWarning =
  warn_type :: warning_type
  warn_message :: string
  warn_affected :: "string list"
  warn_recommendation :: string

record ValidationSuggestion =
  sug_type :: suggestion_type
  sug_confidence :: rat
  sug_description :: string
  sug_impact :: impact
  sug_implementation :: string

text \<open>
  A metric is the result of a division: \<open>None\<close> stands for the \<open>NaN\<close> or infinity that a
  division by zero gives.
\<close>

record Metrics =
  consistency :: "rat option"
  completeness :: "rat option"
  clarity :: "rat option"
  coverage :: "rat option"

definition js_div :: "rat \<Rightarrow> rat \<Rightarrow> rat option" where
  "js_div x y = (if y = 0 then None else Some (x / y))"

record OntologyValidationResult =
  valid :: bool
  errors :: "ValidationError list"
  warnings :: "ValidationWarning list"
  suggestions :: "ValidationSuggestion list"
  metrics :: Metrics

section \<open>JavaScript strings and arrays\<close>

text \<open>
  Strings are lists of characters; the texts handled are taken to be ASCII, so
  \<open>toLowerCase\<close> only moves \<open>A-Z\<close>, \<open>\w\<close> is \<open>[A-Za-z0-9_]\<close> and \<open>\s\<close> is the six
  ASCII white-space characters.
\<close>

definition lower_letters :: string where
  "lower_letters = ''abcdefghijklmnopqrstuvwxyz''"

definition upper_letters :: string where
  "upper_letters = ''ABCDEFGHIJKLMNOPQRSTUVWXYZ''"

definition digit_chars :: string where
  "digit_chars = ''0123456789''"

definition is_upper :: "char \<Rightarrow> bool" where
  "is_upper c = (c \<in> set upper_letters)"

definition is_lower :: "char \<Rightarrow> bool" where
  "is_lower c = (c \<in> set lower_letters)"

definition is_digit :: "char \<Rightarrow> bool" where
  "is_digit c = (c \<in> set digit_chars)"

definition is_word_char :: "char \<Rightarrow> bool" where
  "is_word_char c = (is_lower c \<or> is_upper c \<or> is_digit c \<or> c = CHR ''_'')"

definition is_space :: "char \<Rightarrow> bool" where
  "is_space c = (c \<in> set [CHR '' '', CHR 0x09, CHR 0x0A, CHR 0x0B, CHR 0x0C, CHR 0x0D])"

definition lower_char :: "char \<Rightarrow> char" where
  "lower_char c = (case map_of (zip upper_letters lower_letters) c of Some l \<Rightarrow> l | None \<Rightarrow> c)"

definition upper_char :: "char \<Rightarrow> char" where
  "upper_char c = (case map_of (zip lower_letters upper_letters) c of Some u \<Rightarrow> u | None \<Rightarrow> c)"

definition toLowerCase :: "string \<Rightarrow> string" where
  "toLowerCase s = map lower_char s"

definition toUpperCase :: "string \<Rightarrow> string" where
  "toUpperCase s = map upper_char s"

text \<open>
  \<open>s.split(/[...]+/)\<close> for a character class: the string is cut at every maximal run of
  separator characters; a separator at either end gives an empty first or last piece, and
  the empty string gives one empty piece.
\<close>

fun split_runs :: "(char \<Rightarrow> bool) \<Rightarrow> string \<Rightarrow> bool \<Rightarrow> string \<Rightarrow> string list" where
  "split_runs sep cur in_sep [] = [rev cur]"
| "split_runs sep cur in_sep (c # cs) =
     (if sep c then (if in_sep then split_runs sep cur True cs
                     else rev cur # split_runs sep [] True cs)
      else split_runs sep (c # cur) False cs)"

definition split_on :: "(char \<Rightarrow> bool) \<Rightarrow> string \<Rightarrow> string list" where
  "split_on sep s = split_runs sep [] False s"

definition split_ws :: "string \<Rightarrow> string list" where
  "split_ws s = split_on is_space s"

definition trim :: "string \<Rightarrow> string" where
  "trim s = rev (dropWhile is_space (rev (dropWhile is_space s)))"

definition startsWith :: "string \<Rightarrow> string \<Rightarrow> bool" where
  "startsWith s t = (take (length t) s = t)"

definition endsWith :: "string \<Rightarrow> string \<Rightarrow> bool" where
  "endsWith s t = (length t \<le> length s \<and> drop (length s - length t) s = t)"

fun str_includes :: "string \<Rightarrow> string \<Rightarrow> bool" where
  "str_includes [] t = (t = [])"
| "str_includes (c # cs) t = (startsWith (c # cs) t \<or> str_includes cs t)"

text \<open>\<open>indexOf\<close> for strings and arrays; \<open>None\<close> stands for \<open>-1\<close>.\<close>

fun str_indexOf_from :: "nat \<Rightarrow> string \<Rightarrow> string \<Rightarrow> nat option" where
  "str_indexOf_from i [] t = (if t = [] then Some i else None)"
| "str_indexOf_from i (c # cs) t =
     (if startsWith (c # cs) t then Some i else str_indexOf_from (Suc i) cs t)"

definition str_indexOf :: "string \<Rightarrow> string \<Rightarrow> nat option" where
  "str_indexOf s t = str_indexOf_from 0 s t"

fun arr_indexOf_from :: "nat \<Rightarrow> 'a list \<Rightarrow> 'a \<Rightarrow> nat option" where
  "arr_indexOf_from i [] x = None"
| "arr_indexOf_from i (y # ys) x = (if y = x then Some i else arr_indexOf_from (Suc i) ys x)"

definition arr_indexOf :: "'a list \<Rightarrow> 'a \<Rightarrow> nat option" where
  "arr_indexOf xs x = arr_indexOf_from 0 xs x"

fun join :: "string \<Rightarrow> string list \<Rightarrow> string" where
  "join sep [] = []"
| "join sep [x] = x"
| "join sep (x # y # ys) = x @ sep @ join sep (y # ys)"

text \<open>Decimal rendering of a count, as a template literal prints it.\<close>

fun digits_of :: "nat \<Rightarrow> nat \<Rightarrow> string" where
  "digits_of 0 n = []"
| "digits_of (Suc fuel) n =
     (if n < 10 then [digit_chars ! n]
      else digits_of fuel (n div 10) @ [digit_chars ! (n mod 10)])"

definition show_nat :: "nat \<Rightarrow> string" where
  "show_nat n = digits_of (Suc n) n"

text \<open>
  \<open>x.toFixed(1)\<close> for a non-negative score: rounded half up to one decimal.
\<close>

definition toFixed1 :: "rat \<Rightarrow> string" where
  "toFixed1 x = (let t = nat \<lfloor>x * 10 + 1 / 2\<rfloor> in show_nat (t div 10) @ ''.'' @ show_nat (t mod 10))"

section \<open>The ontology store (services/OntologyManager.ts)\<close>

record OntologyManager =
  classes :: "(string \<times> OntologyClass) list"
  properties :: "(string \<times> OntologyProperty) list"
  relationships :: "(string \<times> OntologyRelationship) list"
  domains :: "(string \<times> Domain) list"

definition empty_store :: OntologyManager where
  "empty_store = \<lparr>classes = [], properties = [], relationships = [], domains = []\<rparr>"

definition getClass :: "OntologyManager \<Rightarrow> string \<Rightarrow> OntologyClass option" where
  "getClass s i = map_of (classes s) i"

text \<open>
  \<open>updateClassHierarchy\<close>: one iteration of the loop over \<open>ontologyClass.superClasses\<close>.
  The super-class is looked up in the store as it is at that moment; when it exists and
  does not list the new id yet, the id is pushed onto its \<open>subClasses\<close>.
\<close>

definition updateClassHierarchy_step ::
  "string \<Rightarrow> (string \<times> OntologyClass) list \<Rightarrow> string \<Rightarrow> (string \<times> OntologyClass) list" where
  "updateClassHierarchy_step cid cs superClassId =
     (case map_of cs superClassId of
        None \<Rightarrow> cs
      | Some superClass \<Rightarrow>
          if cid \<in> set (subClasses superClass) then cs
          else AList.update superClassId
                 (superClass\<lparr>subClasses := subClasses superClass @ [cid]\<rparr>) cs)"

definition updateClassHierarchy :: "OntologyManager \<Rightarrow> OntologyClass \<Rightarrow> OntologyManager" where
  "updateClassHierarchy s ontologyClass =
     s\<lparr>classes := foldl (updateClassHierarchy_step (cls_id ontologyClass)) (classes s)
                     (superClasses ontologyClass)\<rparr>"

definition addClass :: "OntologyManager \<Rightarrow> OntologyClass \<Rightarrow> OntologyManager" where
  "addClass s ontologyClass =
     updateClassHierarchy
       (s\<lparr>classes := AList.update (cls_id ontologyClass) ontologyClass (classes s)\<rparr>)
       ontologyClass"

definition removeFromSuper ::
  "string \<Rightarrow> (string \<times> OntologyClass) list \<Rightarrow> string \<Rightarrow> (string \<times> OntologyClass) list" where
  "removeFromSuper cid cs superClassId =
     (case map_of cs superClassId of
        None \<Rightarrow> cs
      | Some superClass \<Rightarrow>
          AList.update superClassId
            (superClass\<lparr>subClasses := filter (\<lambda>i. i \<noteq> cid) (subClasses superClass)\<rparr>) cs)"

definition removeFromSub ::
  "string \<Rightarrow> (string \<times> OntologyClass) list \<Rightarrow> string \<Rightarrow> (string \<times> OntologyClass) list" where
  "removeFromSub cid cs subClassId =
     (case map_of cs subClassId of
        None \<Rightarrow> cs
      | Some subClass \<Rightarrow>
          AList.update subClassId
            (subClass\<lparr>superClasses := filter (\<lambda>i. i \<noteq> cid) (superClasses subClass)\<rparr>) cs)"

text \<open>
  \<open>removeFromHierarchy\<close>: the second loop reads \<open>cls.subClasses\<close> of the stored object,
  which the first loop may have replaced when the class is its own super-class.
\<close>

definition removeFromHierarchy :: "OntologyManager \<Rightarrow> OntologyClass \<Rightarrow> OntologyManager" where
  "removeFromHierarchy s cls =
     (let cs1 = foldl (removeFromSuper (cls_id cls)) (classes s) (superClasses cls);
          subs = (case map_of cs1 (cls_id cls) of
                    Some cls' \<Rightarrow> subClasses cls' | None \<Rightarrow> subClasses cls);
          cs2 = foldl (removeFromSub (cls_id cls)) cs1 subs
      in s\<lparr>classes := cs2\<rparr>)"

definition removeClassRelationships :: "OntologyManager \<Rightarrow> string \<Rightarrow> OntologyManager" where
  "removeClassRelationships s classId =
     (let toRemove = map fst (filter (\<lambda>(i, rel). rel_source rel = classId \<or> rel_target rel = classId)
                                (relationships s))
      in s\<lparr>relationships := foldl (\<lambda>rs i. AList.delete i rs) (relationships s) toRemove\<rparr>)"

definition deleteClass :: "OntologyManager \<Rightarrow> string \<Rightarrow> bool \<times> OntologyManager" where
  "deleteClass s i =
     (case getClass s i of
        None \<Rightarrow> (False, s)
      | Some cls \<Rightarrow>
          (let s1 = removeFromHierarchy s cls;
               s2 = removeClassRelationships s1 i
           in (True, s2\<lparr>classes := AList.delete i (classes s2)\<rparr>)))"

definition addProperty :: "OntologyManager \<Rightarrow> OntologyProperty \<Rightarrow> OntologyManager" where
  "addProperty s property = s\<lparr>properties := AList.update (prop_id property) property (properties s)\<rparr>"

definition reverseId :: "OntologyRelationship \<Rightarrow> string" where
  "reverseId relationship =
     rel_target relationship @ ''-'' @ rel_type relationship @ ''-'' @ rel_source relationship"

definition createBidirectionalRelationship ::
  "OntologyManager \<Rightarrow> OntologyRelationship \<Rightarrow> OntologyManager" where
  "createBidirectionalRelationship s relationship =
     (if map_of (relationships s) (reverseId relationship) = None
      then s\<lparr>relationships :=
               AList.update (reverseId relationship)
                 (relationship\<lparr>rel_id := reverseId relationship,
                                rel_source := rel_target relationship,
                                rel_target := rel_source relationship\<rparr>)
                 (relationships s)\<rparr>
      else s)"

definition addRelationship :: "OntologyManager \<Rightarrow> OntologyRelationship \<Rightarrow> OntologyManager" where
  "addRelationship s relationship =
     (let s1 = s\<lparr>relationships :=
                  AList.update (rel_id relationship) relationship (relationships s)\<rparr>
      in if bidirectional relationship then createBidirectionalRelationship s1 relationship
         else s1)"

definition getRelationship :: "OntologyManager \<Rightarrow> string \<Rightarrow> OntologyRelationship option" where
  "getRelationship s i = map_of (relationships s) i"

definition addDomain :: "OntologyManager \<Rightarrow> Domain \<Rightarrow> OntologyManager" where
  "addDomain s d = s\<lparr>domains := AList.update (dom_id d) d (domains s)\<rparr>"

subsection \<open>Validation inside the store\<close>

text \<open>
  A \<open>Set<string>\<close> is a duplicate-free list in insertion order.
\<close>

definition set_add :: "string list \<Rightarrow> string \<Rightarrow> string list" where
  "set_add xs x = (if x \<in> set xs then xs else xs @ [x])"

definition set_delete :: "string list \<Rightarrow> string \<Rightarrow> string list" where
  "set_delete xs x = removeAll x xs"

text \<open>
  \<open>detectCycleInHierarchy\<close> (the validator's \<open>detectCycle\<close> is the same code). The sets
  \<open>visited\<close> and \<open>stack\<close> are shared by all calls and returned updated; \<open>path\<close> is copied at
  each call. The first argument bounds the nesting depth of the recursion; \<open>None\<close> is a
  recursion deeper than that. \<open>path.slice(-1)\<close> is the last element of the path when
  \<open>indexOf\<close> finds nothing.
\<close>

fun detectCycle ::
    "nat \<Rightarrow> (string \<times> OntologyClass) list \<Rightarrow> string \<Rightarrow> string list \<Rightarrow> string list \<Rightarrow> string list
      \<Rightarrow> (string list \<times> string list \<times> string list) option"
  and detectCycle_supers ::
    "nat \<Rightarrow> (string \<times> OntologyClass) list \<Rightarrow> string \<Rightarrow> string list \<Rightarrow> string list \<Rightarrow> string list
      \<Rightarrow> string list \<Rightarrow> (string list \<times> string list \<times> string list) option"
where
  "detectCycle 0 cs classId visited stack path = None"
| "detectCycle (Suc depth) cs classId visited stack path =
     (let visited1 = set_add visited classId;
          stack1 = set_add stack classId;
          path1 = path @ [classId]
      in case map_of cs classId of
           None \<Rightarrow> Some ([], visited1, stack1)
         | Some cls \<Rightarrow> detectCycle_supers depth cs classId (superClasses cls) visited1 stack1 path1)"
| "detectCycle_supers depth cs classId [] visited stack path =
     Some ([], visited, set_delete stack classId)"
| "detectCycle_supers depth cs classId (superClassId # rest) visited stack path =
     (if superClassId \<notin> set visited then
        (case detectCycle depth cs superClassId visited stack path of
           None \<Rightarrow> None
         | Some (cycle, visited1, stack1) \<Rightarrow>
             if cycle \<noteq> [] then Some (cycle, visited1, stack1)
             else detectCycle_supers depth cs classId rest visited1 stack1 path)
      else if superClassId \<in> set stack then
        Some ((case arr_indexOf path superClassId of
                 Some cycleStart \<Rightarrow> drop cycleStart path
               | None \<Rightarrow> [last path]) @ [superClassId], visited, stack)
      else detectCycle_supers depth cs classId rest visited stack path)"

definition circular_error :: "string list \<Rightarrow> ValidationError" where
  "circular_error cycle =
     \<lparr>err_type = Circular_dependency, err_severity = Critical,
      err_message = ''Circular dependency detected in class hierarchy: '' @ join '' -> '' cycle,
      err_affected = cycle,
      err_fix = Some (''Remove inheritance relationship between '' @ last cycle @ '' and ''
                      @ hd cycle)\<rparr>"

fun detectCircular_loop ::
  "(string \<times> OntologyClass) list \<Rightarrow> string list \<Rightarrow> string list \<Rightarrow> string list
     \<Rightarrow> ValidationError list \<Rightarrow> ValidationError list option" where
  "detectCircular_loop cs [] visited stack errs = Some errs"
| "detectCircular_loop cs (classId # rest) visited stack errs =
     (if classId \<in> set visited then detectCircular_loop cs rest visited stack errs
      else case detectCycle (Suc (length cs)) cs classId visited stack [] of
             None \<Rightarrow> None
           | Some (cycle, visited1, stack1) \<Rightarrow>
               detectCircular_loop cs rest visited1 stack1
                 (if cycle \<noteq> [] then errs @ [circular_error cycle] else errs))"

definition detectCircularDependencies :: "OntologyManager \<Rightarrow> ValidationError list option" where
  "detectCircularDependencies s =
     detectCircular_loop (classes s) (map (cls_id \<circ> snd) (classes s)) [] [] []"

definition getRelationshipsForClass :: "OntologyManager \<Rightarrow> string \<Rightarrow> OntologyRelationship list" where
  "getRelationshipsForClass s classId =
     filter (\<lambda>rel. rel_source rel = classId \<or> rel_target rel = classId)
       (map snd (relationships s))"

definition detectOrphanedClasses :: "OntologyManager \<Rightarrow> ValidationWarning list" where
  "detectOrphanedClasses s =
     concat (map (\<lambda>cls.
       if instances cls = [] \<and> subClasses cls = [] \<and> getRelationshipsForClass s (cls_id cls) = []
       then [\<lparr>warn_type = Orphaned_class,
              warn_message = ''Class \"'' @ cls_name cls
                             @ ''\" has no instances, subclasses, or relationships'',
              warn_affected = [cls_id cls],
              warn_recommendation = ''Consider adding instances or connecting to other classes''\<rparr>]
       else []) (map snd (classes s)))"

definition extractKeywords :: "string \<Rightarrow> string list" where
  "extractKeywords text =
     take 10 (filter (\<lambda>word. length word > 3)
       (split_ws (filter (\<lambda>c. is_word_char c \<or> is_space c) (toLowerCase text))))"

definition description_or_empty :: "string option \<Rightarrow> string" where
  "description_or_empty d = (case d of Some t \<Rightarrow> t | None \<Rightarrow> [])"

text \<open>\<open>calculateSemanticSimilarity\<close>; the result is \<open>NaN\<close> when neither class has a keyword.\<close>

definition calculateSemanticSimilarity :: "OntologyClass \<Rightarrow> OntologyClass \<Rightarrow> rat option" where
  "calculateSemanticSimilarity cls1 cls2 =
     (let words1 = extractKeywords (cls_name cls1 @ '' '' @ description_or_empty (cls_description cls1));
          words2 = extractKeywords (cls_name cls2 @ '' '' @ description_or_empty (cls_description cls2));
          intersection = filter (\<lambda>word. word \<in> set words2) words1;
          union = remdups (words1 @ words2)
      in js_div (of_nat (length intersection)) (of_nat (length union)))"

definition findPotentiallyRelatedClasses ::
  "OntologyManager \<Rightarrow> OntologyClass \<Rightarrow> (string \<times> string \<times> rat) list" where
  "findPotentiallyRelatedClasses s cls =
     take 3 (sort_key (\<lambda>(i, n, c). - c)
       (concat (map (\<lambda>other.
          case calculateSemanticSimilarity cls other of
            None \<Rightarrow> []
          | Some c \<Rightarrow> if c > 1 / 2 then [(cls_id other, cls_name other, c)] else [])
        (filter (\<lambda>other. cls_id other \<noteq> cls_id cls) (map snd (classes s))))))"

definition suggestMissingRelationships :: "OntologyManager \<Rightarrow> ValidationSuggestion list" where
  "suggestMissingRelationships s =
     concat (map (\<lambda>cls.
       concat (map (\<lambda>(rid, rname, rconf).
         if find (\<lambda>rel. (rel_source rel = cls_id cls \<and> rel_target rel = rid) \<or>
                        (rel_source rel = rid \<and> rel_target rel = cls_id cls))
              (map snd (relationships s)) = None
         then [\<lparr>sug_type = Add_relationship, sug_confidence = rconf,
                sug_description = ''Consider adding relationship between \"'' @ cls_name cls
                                  @ ''\" and \"'' @ rname @ ''\"'',
                sug_impact = (if rconf > 7 / 10 then High else Medium),
                sug_implementation = ''Add semantic relationship based on content analysis''\<rparr>]
         else [])
       (findPotentiallyRelatedClasses s cls)))
     (map snd (classes s)))"

definition calculateClarityScore :: "OntologyManager \<Rightarrow> rat option" where
  "calculateClarityScore s =
     js_div (of_nat (length (filter (\<lambda>cls. description_or_empty (cls_description cls) \<noteq> [])
                              (map snd (classes s)))))
       (of_nat (max (length (classes s)) 1))"

definition calculateCoverageScore :: "OntologyManager \<Rightarrow> rat option" where
  "calculateCoverageScore s = Some (8 / 10)"

text \<open>
  \<open>calculateConsistencyScore\<close> and \<open>calculateOntologyMetrics\<close>, given the result of the
  call \<open>this.validateOntology()\<close> that \<open>calculateConsistencyScore\<close> makes first.
\<close>

definition calculateConsistencyScore ::
  "OntologyManager \<Rightarrow> OntologyValidationResult \<Rightarrow> rat option" where
  "calculateConsistencyScore s validation =
     (let errorPenalty = of_nat (length (errors validation)) * (7 / 10);
          warningPenalty = of_nat (length (warnings validation)) * (3 / 10);
          totalPenalty = errorPenalty + warningPenalty
      in map_option (\<lambda>q. max 0 (1 - q))
           (js_div totalPenalty (of_nat (max (length (classes s)) 1))))"

definition calculateOntologyMetrics :: "OntologyManager \<Rightarrow> OntologyValidationResult \<Rightarrow> Metrics" where
  "calculateOntologyMetrics s validation =
     (let totalClasses = length (classes s);
          classesWithInstances = length (filter (\<lambda>cls. instances cls \<noteq> []) (map snd (classes s)))
      in \<lparr>consistency = calculateConsistencyScore s validation,
          completeness = js_div (of_nat classesWithInstances) (of_nat (max totalClasses 1)),
          clarity = calculateClarityScore s,
          coverage = calculateCoverageScore s\<rparr>)"

text \<open>
  \<open>OntologyManager.validateOntology\<close>. Its last step \<open>calculateOntologyMetrics\<close> calls
  \<open>calculateConsistencyScore\<close>, whose first statement is \<open>this.validateOntology()\<close> on the
  same store: that call is the recursive call below. \<open>None\<close> means that no result is
  returned.
\<close>

partial_function (option) OntologyManager_validateOntology ::
  "OntologyManager \<Rightarrow> OntologyValidationResult option" where
  "OntologyManager_validateOntology s =
     (case detectCircularDependencies s of
        None \<Rightarrow> None
      | Some errs \<Rightarrow>
          let warns = detectOrphanedClasses s;
              suggs = suggestMissingRelationships s
          in Option.bind (OntologyManager_validateOntology s) (\<lambda>validation.
               Some \<lparr>valid = (length errs = 0), errors = errs, warnings = warns,
                     suggestions = suggs, metrics = calculateOntologyMetrics s validation\<rparr>))"

subsection \<open>Properties of the store stated by the specification\<close>

text \<open>
  The hierarchy graph has an edge from a class to each of its super-classes, read off
  \<open>superClasses\<close> (first set) and off \<open>subClasses\<close> (second set).
\<close>

definition class_keys :: "OntologyManager \<Rightarrow> string set" where
  "class_keys s = fst ` set (classes s)"

definition hierarchy_edges :: "OntologyManager \<Rightarrow> (string \<times> string) set" where
  "hierarchy_edges s =
     {(a, b). \<exists>c. (a, c) \<in> set (classes s) \<and> b \<in> set (superClasses c)} \<union>
     {(a, b). \<exists>c. (b, c) \<in> set (classes s) \<and> a \<in> set (subClasses c)}"

definition referential_symmetry :: "OntologyManager \<Rightarrow> bool" where
  "referential_symmetry s =
     (\<forall>(a, ca) \<in> set (classes s). \<forall>(b, cb) \<in> set (classes s).
        (b \<in> set (subClasses ca)) = (a \<in> set (superClasses cb)))"

text \<open>
  A disciplined insertion adds a class under an id the store does not hold yet, with no
  sub-classes of its own and with every listed super-class already present. The stores
  built by such insertions, deletions and the operations that do not touch classes are
  the disciplined ones.
\<close>

definition disciplined_add :: "OntologyManager \<Rightarrow> OntologyClass \<Rightarrow> bool" where
  "disciplined_add s c =
     (cls_id c \<notin> class_keys s \<and> set (superClasses c) \<subseteq> class_keys s \<and> subClasses c = [])"

inductive disciplined :: "OntologyManager \<Rightarrow> bool" where
  d_empty: "disciplined empty_store"
| d_addClass: "disciplined s \<Longrightarrow> disciplined_add s c \<Longrightarrow> disciplined (addClass s c)"
| d_deleteClass: "disciplined s \<Longrightarrow> disciplined (snd (deleteClass s i))"
| d_addProperty: "disciplined s \<Longrightarrow> disciplined (addProperty s p)"
| d_addRelationship: "disciplined s \<Longrightarrow> disciplined (addRelationship s r)"
| d_addDomain: "disciplined s \<Longrightarrow> disciplined (addDomain s d)"

text \<open>Auxiliary notions for the proofs about \<open>addClass\<close> and \<open>deleteClass\<close>.\<close>

definition push_sub :: "string \<Rightarrow> string list \<Rightarrow> string \<Rightarrow> OntologyClass \<Rightarrow> OntologyClass" where
  "push_sub cid sps k d =
     (if k \<in> set sps \<and> cid \<notin> set (subClasses d)
      then d\<lparr>subClasses := subClasses d @ [cid]\<rparr> else d)"

definition rm_sub :: "string \<Rightarrow> string list \<Rightarrow> string \<Rightarrow> OntologyClass \<Rightarrow> OntologyClass" where
  "rm_sub cid sps k d =
     (if k \<in> set sps then d\<lparr>subClasses := filter (\<lambda>j. j \<noteq> cid) (subClasses d)\<rparr> else d)"

definition rm_super :: "string \<Rightarrow> string list \<Rightarrow> string \<Rightarrow> OntologyClass \<Rightarrow> OntologyClass" where
  "rm_super cid sbs k d =
     (if k \<in> set sbs then d\<lparr>superClasses := filter (\<lambda>j. j \<noteq> cid) (superClasses d)\<rparr> else d)"

definition super_edges :: "(string \<rightharpoonup> OntologyClass) \<Rightarrow> (string \<times> string) set" where
  "super_edges m = {(a, b). \<exists>c. m a = Some c \<and> b \<in> set (superClasses c)}"

definition m_closed :: "(string \<rightharpoonup> OntologyClass) \<Rightarrow> bool" where
  "m_closed m = (\<forall>k c. m k = Some c \<longrightarrow>
      cls_id c = k \<and> set (superClasses c) \<subseteq> dom m \<and> set (subClasses c) \<subseteq> dom m)"

definition m_sym :: "(string \<rightharpoonup> OntologyClass) \<Rightarrow> bool" where
  "m_sym m = (\<forall>a b ca cb. m a = Some ca \<longrightarrow> m b = Some cb \<longrightarrow>
      (b \<in> set (subClasses ca)) = (a \<in> set (superClasses cb)))"

definition store_inv :: "OntologyManager \<Rightarrow> bool" where
  "store_inv s = (distinct (map fst (classes s)) \<and> m_closed (map_of (classes s)) \<and>
     m_sym (map_of (classes s)) \<and> acyclic (super_edges (map_of (classes s))))"

text \<open>Concrete classes and relationships used as test inputs.\<close>

definition plain_class :: "string \<Rightarrow> string list \<Rightarrow> string list \<Rightarrow> OntologyClass" where
  "plain_class i sps sbs =
     \<lparr>cls_id = i, cls_name = i, cls_description = None, superClasses = sps, subClasses = sbs,
      cls_properties = [], cls_constraints = [], instances = [], cls_created = [],
      cls_modified = [], cls_confidence = 1, cls_source = Manual\<rparr>"

definition plain_relationship :: "string \<Rightarrow> string \<Rightarrow> string \<Rightarrow> string \<Rightarrow> bool \<Rightarrow> OntologyRelationship" where
  "plain_relationship i t src tgt bi =
     \<lparr>rel_id = i, rel_type = t, rel_source = src, rel_target = tgt, rel_properties = [],
      rel_confidence = 1, bidirectional = bi, rel_created = [], rel_provenance = Manual\<rparr>"

definition mirror_of :: "OntologyRelationship \<Rightarrow> OntologyRelationship" where
  "mirror_of r = r\<lparr>rel_id := reverseId r, rel_source := rel_target r, rel_target := rel_source r\<rparr>"

section \<open>The validator (services/OntologyValidator.ts)\<close>

record ValidationContext =
  ctx_classes :: "(string \<times> OntologyClass) list"
  ctx_properties :: "(string \<times> OntologyProperty) list"
  ctx_relationships :: "(string \<times> OntologyRelationship) list"

record ValidationResult =
  res_errors :: "ValidationError list"
  res_warnings :: "ValidationWarning list"
  res_suggestions :: "ValidationSuggestion list"

text \<open>
  A rule's \<open>validator\<close> either returns its result (\<open>Inr\<close>) or throws (\<open>Inl\<close>, carrying
  the thrown value as the template literal \<open>${error}\<close> prints it).
\<close>

record ValidationRule =
  rule_name :: string
  rule_description :: string
  rule_severity :: severity
  validator :: "ValidationContext \<Rightarrow> string + ValidationResult"

text \<open>\<open>new Map(xs.map(x => [x.id, x]))\<close>: a later entry with the same id replaces the value.\<close>

definition map_from :: "('a \<Rightarrow> string) \<Rightarrow> 'a list \<Rightarrow> (string \<times> 'a) list" where
  "map_from key xs = foldl (\<lambda>m x. AList.update (key x) x m) [] xs"

definition make_context ::
  "OntologyClass list \<Rightarrow> OntologyProperty list \<Rightarrow> OntologyRelationship list \<Rightarrow> ValidationContext" where
  "make_context cs ps rs =
     \<lparr>ctx_classes = map_from cls_id cs, ctx_properties = map_from prop_id ps,
      ctx_relationships = map_from rel_id rs\<rparr>"

text \<open>All pairs \<open>(xs[i], xs[j])\<close> with \<open>i < j\<close>, in the order of the two nested loops.\<close>

fun pairs :: "'a list \<Rightarrow> ('a \<times> 'a) list" where
  "pairs [] = []"
| "pairs (x # xs) = map (Pair x) xs @ pairs xs"

definition show_int :: "int \<Rightarrow> string" where
  "show_int i = (if i < 0 then ''-'' @ show_nat (nat (- i)) else show_nat (nat i))"

subsection \<open>Rule 1: circular dependencies\<close>

text \<open>
  The recursion of \<open>detectCycle\<close> is bounded by one more than the number of classes; a
  deeper recursion is reported as the stack overflow it would be.
\<close>

definition validateCircularDependencies :: "ValidationContext \<Rightarrow> string + ValidationResult" where
  "validateCircularDependencies ctx =
     (case detectCircular_loop (ctx_classes ctx) (map fst (ctx_classes ctx)) [] [] [] of
        None \<Rightarrow> Inl ''RangeError: Maximum call stack size exceeded''
      | Some errs \<Rightarrow> Inr \<lparr>res_errors = errs, res_warnings = [], res_suggestions = []\<rparr>)"

subsection \<open>Rule 2: missing super-class references\<close>

definition validateSuperclassReferences :: "ValidationContext \<Rightarrow> string + ValidationResult" where
  "validateSuperclassReferences ctx =
     Inr \<lparr>res_errors =
            concat (map (\<lambda>cls. concat (map (\<lambda>superClassId.
              if map_of (ctx_classes ctx) superClassId = None
              then [\<lparr>err_type = Missing_superclass, err_severity = Major,
                     err_message = ''Class \"'' @ cls_name cls
                       @ ''\" references non-existent superclass \"'' @ superClassId @ ''\"'',
                     err_affected = [cls_id cls, superClassId],
                     err_fix = Some (''Define the missing superclass \"'' @ superClassId
                                     @ ''\" or remove the reference'')\<rparr>]
              else []) (superClasses cls))) (map snd (ctx_classes ctx))),
          res_warnings = [], res_suggestions = []\<rparr>"

subsection \<open>Rule 3: property domain, range and cardinality\<close>

definition property_errors :: "ValidationContext \<Rightarrow> OntologyProperty \<Rightarrow> ValidationError list" where
  "property_errors ctx property =
     concat (map (\<lambda>domainId.
       if map_of (ctx_classes ctx) domainId = None
       then [\<lparr>err_type = Constraint_violation, err_severity = Major,
              err_message = ''Property \"'' @ prop_name property @ ''\" has non-existent class \"''
                            @ domainId @ ''\" in domain'',
              err_affected = [prop_id property, domainId],
              err_fix = Some (''Define the missing class \"'' @ domainId
                              @ ''\" or remove from property domain'')\<rparr>]
       else []) (prop_domain property))
     @ (if prop_type property = Object
        then concat (map (\<lambda>rangeId.
               if map_of (ctx_classes ctx) rangeId = None
               then [\<lparr>err_type = Constraint_violation, err_severity = Major,
                      err_message = ''Object property \"'' @ prop_name property
                                    @ ''\" has non-existent class \"'' @ rangeId @ ''\" in range'',
                      err_affected = [prop_id property, rangeId],
                      err_fix = Some (''Define the missing class \"'' @ rangeId
                                      @ ''\" or remove from property range'')\<rparr>]
               else []) (prop_range property))
        else [])
     @ (if card_min property < 0
        then [\<lparr>err_type = Constraint_violation, err_severity = Major,
               err_message = ''Property \"'' @ prop_name property
                             @ ''\" has invalid minimum cardinality ('' @ show_int (card_min property)
                             @ '')'',
               err_affected = [prop_id property],
               err_fix = Some ''Set minimum cardinality to 0 or higher''\<rparr>]
        else [])
     @ (case card_max property of
          Bounded mx \<Rightarrow>
            if mx < card_min property
            then [\<lparr>err_type = Constraint_violation, err_severity = Major,
                   err_message = ''Property \"'' @ prop_name property
                                 @ ''\" has maximum cardinality less than minimum'',
                   err_affected = [prop_id property],
                   err_fix = Some ''Ensure maximum cardinality is greater than or equal to minimum''\<rparr>]
            else []
        | Unbounded \<Rightarrow> [])"

definition property_warnings :: "ValidationContext \<Rightarrow> OntologyProperty \<Rightarrow> ValidationWarning list" where
  "property_warnings ctx property =
     (let isUsed = list_ex (\<lambda>rel. prop_name property \<in> set (map fst (rel_properties rel)))
                     (map snd (ctx_relationships ctx))
      in if \<not> isUsed \<and> prop_domain property = []
         then [\<lparr>warn_type = Orphaned_class,
                warn_message = ''Property \"'' @ prop_name property @ ''\" appears to be unused'',
                warn_affected = [prop_id property],
                warn_recommendation =
                  ''Consider removing unused property or adding proper domain/range''\<rparr>]
         else [])"

definition validatePropertyConstraints :: "ValidationContext \<Rightarrow> string + ValidationResult" where
  "validatePropertyConstraints ctx =
     Inr \<lparr>res_errors = concat (map (property_errors ctx) (map snd (ctx_properties ctx))),
          res_warnings = concat (map (property_warnings ctx) (map snd (ctx_properties ctx))),
          res_suggestions = []\<rparr>"

subsection \<open>Rule 4: relationship consistency\<close>

definition contradictoryPairs :: "(string \<times> string) list" where
  "contradictoryPairs =
     [(''is-a'', ''part-of''), (''similar-to'', ''different-from''),
      (''causes'', ''prevents''), (''enables'', ''disables'')]"

definition areContradictory :: "OntologyRelationship \<Rightarrow> OntologyRelationship \<Rightarrow> bool" where
  "areContradictory rel1 rel2 =
     (if rel_source rel1 \<noteq> rel_source rel2 \<or> rel_target rel1 \<noteq> rel_target rel2 then False
      else list_ex (\<lambda>(type1, type2).
             (rel_type rel1 = type1 \<and> rel_type rel2 = type2) \<or>
             (rel_type rel1 = type2 \<and> rel_type rel2 = type1)) contradictoryPairs)"

definition validateRelationshipConsistency :: "ValidationContext \<Rightarrow> string + ValidationResult" where
  "validateRelationshipConsistency ctx =
     (let rels = map snd (ctx_relationships ctx)
      in Inr \<lparr>res_errors =
                 concat (map (\<lambda>(rel1, rel2).
                   if areContradictory rel1 rel2
                   then [\<lparr>err_type = Logical_inconsistency, err_severity = Major,
                          err_message = ''Contradictory relationships: \"'' @ rel_source rel1 @ '' ''
                            @ rel_type rel1 @ '' '' @ rel_target rel1 @ ''\" vs \"'' @ rel_source rel2
                            @ '' '' @ rel_type rel2 @ '' '' @ rel_target rel2 @ ''\"'',
                          err_affected = [rel_id rel1, rel_id rel2],
                          err_fix = Some ''Resolve the contradiction by removing or modifying one of the relationships''\<rparr>]
                   else []) (pairs rels)),
               res_warnings =
                 concat (map (\<lambda>rel.
                   if bidirectional rel \<and>
                      \<not> list_ex (\<lambda>r. rel_source r = rel_target rel \<and> rel_target r = rel_source rel \<and>
                                      rel_type r = rel_type rel) rels
                   then [\<lparr>warn_type = Redundant_relationship,
                          warn_message = ''Bidirectional relationship \"'' @ rel_source rel @ '' ''
                            @ rel_type rel @ '' '' @ rel_target rel @ ''\" is missing its reverse'',
                          warn_affected = [rel_id rel],
                          warn_recommendation =
                            ''Add the reverse relationship or mark as unidirectional''\<rparr>]
                   else []) rels),
               res_suggestions = []\<rparr>)"

subsection \<open>Rule 5: orphaned classes\<close>

definition classHasConnections :: "OntologyClass \<Rightarrow> ValidationContext \<Rightarrow> bool" where
  "classHasConnections cls ctx =
     (if superClasses cls \<noteq> [] \<or> subClasses cls \<noteq> [] then True
      else list_ex (\<lambda>rel. rel_source rel = cls_id cls \<or> rel_target rel = cls_id cls)
             (map snd (ctx_relationships ctx)))"

definition stringSimilarity :: "string \<Rightarrow> string \<Rightarrow> rat option" where
  "stringSimilarity str1 str2 =
     (let words1 = split_ws (toLowerCase str1);
          words2 = split_ws (toLowerCase str2);
          intersection = filter (\<lambda>word. word \<in> set words2) words1;
          union = remdups (words1 @ words2)
      in js_div (of_nat (length intersection)) (of_nat (length union)))"

definition calculateClassSimilarity :: "OntologyClass \<Rightarrow> OntologyClass \<Rightarrow> rat option" where
  "calculateClassSimilarity cls1 cls2 =
     Option.bind (stringSimilarity (cls_name cls1) (cls_name cls2)) (\<lambda>nameSim.
     Option.bind
       (if description_or_empty (cls_description cls1) \<noteq> [] \<and>
           description_or_empty (cls_description cls2) \<noteq> []
        then map_option (\<lambda>x. x * (3 / 10))
               (stringSimilarity (description_or_empty (cls_description cls1))
                  (description_or_empty (cls_description cls2)))
        else Some 0) (\<lambda>descSim.
     Option.bind
       (js_div (of_nat (length (filter (\<lambda>i. i \<in> set (instances cls2)) (instances cls1))))
          (of_nat (max (max (length (instances cls1)) (length (instances cls2))) 1)))
       (\<lambda>common. Some (0 + nameSim * (4 / 10) + descSim + common * (3 / 10)))))"

definition findSimilarClasses :: "OntologyClass \<Rightarrow> ValidationContext \<Rightarrow> OntologyClass list" where
  "findSimilarClasses cls ctx =
     take 3 (filter (\<lambda>otherCls.
               cls_id otherCls \<noteq> cls_id cls \<and>
               (case calculateClassSimilarity cls otherCls of
                  Some similarity \<Rightarrow> similarity > 1 / 2 | None \<Rightarrow> False))
             (map snd (ctx_classes ctx)))"

definition validateOrphanedClasses :: "ValidationContext \<Rightarrow> string + ValidationResult" where
  "validateOrphanedClasses ctx =
     (let orphans = filter (\<lambda>cls. \<not> classHasConnections cls ctx) (map snd (ctx_classes ctx))
      in Inr \<lparr>res_errors = [],
               res_warnings = map (\<lambda>cls.
                 \<lparr>warn_type = Orphaned_class,
                  warn_message = ''Class \"'' @ cls_name cls
                                 @ ''\" has no relationships or hierarchy connections'',
                  warn_affected = [cls_id cls],
                  warn_recommendation =
                    ''Connect class to hierarchy or add relationships with other classes''\<rparr>) orphans,
               res_suggestions = concat (map (\<lambda>cls.
                 let similarClasses = findSimilarClasses cls ctx
                 in if similarClasses \<noteq> []
                    then [\<lparr>sug_type = Add_relationship, sug_confidence = 6 / 10,
                           sug_description = ''Consider connecting \"'' @ cls_name cls
                             @ ''\" to similar classes: '' @ join '', '' (map cls_name similarClasses),
                           sug_impact = Medium,
                           sug_implementation =
                             ''Add semantic relationships or hierarchy connections''\<rparr>]
                    else []) orphans)\<rparr>)"

subsection \<open>Rule 6: naming conventions\<close>

definition is_alnum :: "char \<Rightarrow> bool" where
  "is_alnum c = (is_lower c \<or> is_upper c \<or> is_digit c)"

definition isValidClassName :: "string \<Rightarrow> bool" where
  "isValidClassName name = (case name of [] \<Rightarrow> False | c # cs \<Rightarrow> is_upper c \<and> list_all is_alnum cs)"

definition isValidPropertyName :: "string \<Rightarrow> bool" where
  "isValidPropertyName name = (case name of [] \<Rightarrow> False | c # cs \<Rightarrow> is_lower c \<and> list_all is_alnum cs)"

definition validateNamingConventions :: "ValidationContext \<Rightarrow> string + ValidationResult" where
  "validateNamingConventions ctx =
     Inr \<lparr>res_errors = [],
          res_warnings =
            map (\<lambda>cls. \<lparr>warn_type = Ambiguous_naming,
                        warn_message = ''Class name \"'' @ cls_name cls
                                       @ ''\" doesn't follow naming conventions'',
                        warn_affected = [cls_id cls],
                        warn_recommendation =
                          ''Use PascalCase for class names (e.g., \"ConceptName\")''\<rparr>)
              (filter (\<lambda>cls. \<not> isValidClassName (cls_name cls)) (map snd (ctx_classes ctx)))
            @ map (\<lambda>prop. \<lparr>warn_type = Ambiguous_naming,
                           warn_message = ''Property name \"'' @ prop_name prop
                                          @ ''\" doesn't follow naming conventions'',
                           warn_affected = [prop_id prop],
                           warn_recommendation =
                             ''Use camelCase for property names (e.g., \"propertyName\")''\<rparr>)
                (filter (\<lambda>prop. \<not> isValidPropertyName (prop_name prop))
                   (map snd (ctx_properties ctx))),
          res_suggestions = []\<rparr>"

subsection \<open>Rule 7: hierarchy shape\<close>

text \<open>
  \<open>calculateClassDepthRecursive\<close>: every recursive call receives its own copy of
  \<open>visited\<close>, to which the current class has been added.
\<close>

function calculateClassDepthRecursive ::
  "string \<Rightarrow> (string \<times> OntologyClass) list \<Rightarrow> string list \<Rightarrow> nat" where
  "calculateClassDepthRecursive classId cs visited =
     (if classId \<in> set visited then 0
      else case map_of cs classId of
             None \<Rightarrow> 0
           | Some cls \<Rightarrow>
               if superClasses cls = [] then 0
               else Suc (foldl max 0
                      (map (\<lambda>superClassId.
                              calculateClassDepthRecursive superClassId cs (classId # visited))
                         (superClasses cls))))"
  by pat_completeness auto
termination
proof (relation "measure (\<lambda>(classId, cs, visited). card (set (map fst cs) - set visited))",
       goal_cases)
  case 1
  show ?case by simp
next
  case (2 classId cs visited cls superClassId)
  from \<open>map_of cs classId = Some cls\<close> have "(classId, cls) \<in> set cs" by (rule map_of_SomeD)
  then have "classId \<in> set (map fst cs)" by force
  with \<open>classId \<notin> set visited\<close>
  have "set (map fst cs) - set (classId # visited) \<subset> set (map fst cs) - set visited" by auto
  then have "card (set (map fst cs) - set (classId # visited)) < card (set (map fst cs) - set visited)"
    by (intro psubset_card_mono) simp_all
  then show ?case by simp
qed

definition calculateClassDepth :: "string \<Rightarrow> (string \<times> OntologyClass) list \<Rightarrow> nat" where
  "calculateClassDepth classId cs = calculateClassDepthRecursive classId cs []"

record HierarchyMetrics =
  maxDepth :: nat
  avgBranchingFactor :: rat
  rootClasses :: nat
  totalClasses :: nat

definition calculateHierarchyMetrics :: "ValidationContext \<Rightarrow> HierarchyMetrics" where
  "calculateHierarchyMetrics ctx =
     (let cs = map snd (ctx_classes ctx);
          depth = foldl max 0 (map (\<lambda>cls. calculateClassDepth (cls_id cls) (ctx_classes ctx)) cs);
          branching = filter (\<lambda>cls. subClasses cls \<noteq> []) cs;
          totalBranching = sum_list (map (\<lambda>cls. length (subClasses cls)) branching);
          nonLeafClasses = length branching
      in \<lparr>maxDepth = depth,
          avgBranchingFactor =
            (if nonLeafClasses > 0 then of_nat totalBranching / of_nat nonLeafClasses else 0),
          rootClasses = length (filter (\<lambda>cls. superClasses cls = []) cs),
          totalClasses = length cs\<rparr>)"

definition validateHierarchyStructure :: "ValidationContext \<Rightarrow> string + ValidationResult" where
  "validateHierarchyStructure ctx =
     (let hierarchyMetrics = calculateHierarchyMetrics ctx
      in Inr \<lparr>res_errors = [],
               res_warnings =
                 (if maxDepth hierarchyMetrics > 8
                  then [\<lparr>warn_type = Low_coverage,
                         warn_message = ''Hierarchy is very deep (''
                           @ show_nat (maxDepth hierarchyMetrics) @ '' levels)'',
                         warn_affected = [],
                         warn_recommendation =
                           ''Consider consolidating some intermediate levels to reduce complexity''\<rparr>]
                  else [])
                 @ (if avgBranchingFactor hierarchyMetrics > 12
                    then [\<lparr>warn_type = Low_coverage,
                           warn_message = ''High branching factor (''
                             @ toFixed1 (avgBranchingFactor hierarchyMetrics) @ '')'',
                           warn_affected = [],
                           warn_recommendation =
                             ''Consider adding intermediate categories to organize concepts better''\<rparr>]
                    else []),
               res_suggestions =
                 (if rootClasses hierarchyMetrics > 5
                  then [\<lparr>sug_type = Refine_hierarchy, sug_confidence = 7 / 10,
                         sug_description = ''Many root classes (''
                           @ show_nat (rootClasses hierarchyMetrics)
                           @ '') - consider adding top-level categories'',
                         sug_impact = Medium,
                         sug_implementation =
                           ''Create abstract superclasses to organize root concepts''\<rparr>]
                  else [])\<rparr>)"

subsection \<open>Rule 8: class constraints\<close>

record ConstraintCheck =
  chk_valid :: bool
  chk_message :: string
  chk_suggestion :: string

definition validateCardinalityConstraint :: "OntologyConstraint \<Rightarrow> OntologyClass \<Rightarrow> ConstraintCheck" where
  "validateCardinalityConstraint constraint cls =
     \<lparr>chk_valid = (length (instances cls) \<ge> 0),
      chk_message = ''Cardinality constraint validation for '' @ cls_name cls,
      chk_suggestion = ''Ensure proper instance management''\<rparr>"

definition validateValueConstraint :: "OntologyConstraint \<Rightarrow> OntologyClass \<Rightarrow> ConstraintCheck" where
  "validateValueConstraint constraint cls =
     \<lparr>chk_valid = True,
      chk_message = ''Value constraint validation for '' @ cls_name cls,
      chk_suggestion = ''Review value constraints''\<rparr>"

definition validateLogicalConstraint ::
  "OntologyConstraint \<Rightarrow> OntologyClass \<Rightarrow> ValidationContext \<Rightarrow> ConstraintCheck" where
  "validateLogicalConstraint constraint cls ctx =
     \<lparr>chk_valid = True,
      chk_message = ''Logical constraint validation for '' @ cls_name cls,
      chk_suggestion = ''Review logical constraints''\<rparr>"

definition validateConstraint ::
  "OntologyConstraint \<Rightarrow> OntologyClass \<Rightarrow> ValidationContext \<Rightarrow> ConstraintCheck" where
  "validateConstraint constraint cls ctx =
     (case con_type constraint of
        Cardinality \<Rightarrow> validateCardinalityConstraint constraint cls
      | Value \<Rightarrow> validateValueConstraint constraint cls
      | Logical \<Rightarrow> validateLogicalConstraint constraint cls ctx
      | Restriction \<Rightarrow>
          \<lparr>chk_valid = True, chk_message = ''Unknown constraint type'',
           chk_suggestion = ''Review constraint definition''\<rparr>)"

definition validateConstraints :: "ValidationContext \<Rightarrow> string + ValidationResult" where
  "validateConstraints ctx =
     (let checks = concat (map (\<lambda>cls. map (\<lambda>constraint.
                      (cls, constraint, validateConstraint constraint cls ctx)) (cls_constraints cls))
                    (map snd (ctx_classes ctx)));
          failed = filter (\<lambda>(cls, constraint, res). \<not> chk_valid res) checks
      in Inr \<lparr>res_errors =
                 map (\<lambda>(cls, constraint, res).
                        \<lparr>err_type = Constraint_violation, err_severity = Major,
                         err_message = chk_message res,
                         err_affected = [cls_id cls, con_id constraint],
                         err_fix = Some (chk_suggestion res)\<rparr>)
                   (filter (\<lambda>(cls, constraint, res). con_severity constraint = SevError) failed),
               res_warnings =
                 map (\<lambda>(cls, constraint, res).
                        \<lparr>warn_type = Low_coverage, warn_message = chk_message res,
                         warn_affected = [cls_id cls, con_id constraint],
                         warn_recommendation = chk_suggestion res\<rparr>)
                   (filter (\<lambda>(cls, constraint, res). con_severity constraint \<noteq> SevError) failed),
               res_suggestions = []\<rparr>)"

subsection \<open>Metrics\<close>

definition calculateCompleteness :: "ValidationContext \<Rightarrow> rat option" where
  "calculateCompleteness ctx =
     js_div (of_nat (length (filter (\<lambda>c. instances c \<noteq> []) (map snd (ctx_classes ctx)))))
       (of_nat (max (length (ctx_classes ctx)) 1))"

definition calculateClarity :: "ValidationContext \<Rightarrow> rat option" where
  "calculateClarity ctx =
     (let elementsWithDescriptions =
            length (filter (\<lambda>c. description_or_empty (cls_description c) \<noteq> [])
                      (map snd (ctx_classes ctx)))
            + length (filter (\<lambda>p. description_or_empty (prop_description p) \<noteq> [])
                        (map snd (ctx_properties ctx)));
          totalElements = length (ctx_classes ctx) + length (ctx_properties ctx)
      in js_div (of_nat elementsWithDescriptions) (of_nat (max totalElements 1)))"

definition calculateCoverage :: "ValidationContext \<Rightarrow> rat option" where
  "calculateCoverage ctx =
     (let n = of_nat (length (ctx_classes ctx)) :: rat;
          expectedRelationships = n * (n - 1) / 10;
          actualRelationships = of_nat (length (ctx_relationships ctx))
      in map_option (\<lambda>q. min q 1) (js_div actualRelationships (max expectedRelationships 1)))"

definition calculateValidationMetrics ::
  "ValidationContext \<Rightarrow> ValidationError list \<Rightarrow> ValidationWarning list \<Rightarrow> Metrics" where
  "calculateValidationMetrics ctx errs warns =
     \<lparr>consistency = Some (max 0 (1 - (of_nat (length errs) * (1 / 10)
                                       + of_nat (length warns) * (5 / 100)))),
      completeness = calculateCompleteness ctx,
      clarity = calculateClarity ctx,
      coverage = calculateCoverage ctx\<rparr>"

subsection \<open>The rule list and validateOntology\<close>

definition validationRules :: "ValidationRule list" where
  "validationRules =
     [\<lparr>rule_name = ''circular_hierarchy'',
       rule_description = ''Detect circular dependencies in class hierarchies'',
       rule_severity = Critical, validator = validateCircularDependencies\<rparr>,
      \<lparr>rule_name = ''missing_superclass'',
       rule_description = ''Check for references to non-existent superclasses'',
       rule_severity = Major, validator = validateSuperclassReferences\<rparr>,
      \<lparr>rule_name = ''property_domain_range'',
       rule_description = ''Validate property domain and range constraints'',
       rule_severity = Major, validator = validatePropertyConstraints\<rparr>,
      \<lparr>rule_name = ''relationship_consistency'',
       rule_description = ''Check for contradictory relationships'',
       rule_severity = Major, validator = validateRelationshipConsistency\<rparr>,
      \<lparr>rule_name = ''orphaned_classes'',
       rule_description = ''Identify isolated classes with no connections'',
       rule_severity = Minor, validator = validateOrphanedClasses\<rparr>,
      \<lparr>rule_name = ''naming_conventions'',
       rule_description = ''Check adherence to naming conventions'',
       rule_severity = Minor, validator = validateNamingConventions\<rparr>,
      \<lparr>rule_name = ''hierarchy_depth'',
       rule_description = ''Check for overly deep or shallow hierarchies'',
       rule_severity = Minor, validator = validateHierarchyStructure\<rparr>,
      \<lparr>rule_name = ''constraint_violations'',
       rule_description = ''Validate ontological constraints'',
       rule_severity = Major, validator = validateConstraints\<rparr>]"

definition addCustomValidationRule :: "ValidationRule list \<Rightarrow> ValidationRule \<Rightarrow> ValidationRule list" where
  "addCustomValidationRule rules rule = rules @ [rule]"

fun removeValidationRule :: "ValidationRule list \<Rightarrow> string \<Rightarrow> bool \<times> ValidationRule list" where
  "removeValidationRule [] ruleName = (False, [])"
| "removeValidationRule (r # rules) ruleName =
     (if rule_name r = ruleName then (True, rules)
      else (fst (removeValidationRule rules ruleName), r # snd (removeValidationRule rules ruleName)))"

definition rule_failed_error :: "ValidationRule \<Rightarrow> string \<Rightarrow> ValidationError" where
  "rule_failed_error rule error =
     \<lparr>err_type = Logical_inconsistency, err_severity = Critical,
      err_message = ''Validation rule '' @ [CHR 0x27] @ rule_name rule @ [CHR 0x27]
                    @ '' failed: '' @ error,
      err_affected = [],
      err_fix = Some ''Review ontology structure and fix any malformed elements''\<rparr>"

text \<open>
  The loop over the registered rules, with its three accumulators; the \<open>catch\<close> branch
  pushes one error and goes on with the next rule.
\<close>

fun run_rules ::
  "ValidationRule list \<Rightarrow> ValidationContext \<Rightarrow> ValidationError list \<Rightarrow> ValidationWarning list
     \<Rightarrow> ValidationSuggestion list
     \<Rightarrow> ValidationError list \<times> ValidationWarning list \<times> ValidationSuggestion list" where
  "run_rules [] ctx allErrors allWarnings allSuggestions = (allErrors, allWarnings, allSuggestions)"
| "run_rules (rule # rules) ctx allErrors allWarnings allSuggestions =
     (case validator rule ctx of
        Inr result \<Rightarrow>
          run_rules rules ctx (allErrors @ res_errors result) (allWarnings @ res_warnings result)
            (allSuggestions @ res_suggestions result)
      | Inl error \<Rightarrow>
          run_rules rules ctx (allErrors @ [rule_failed_error rule error]) allWarnings
            allSuggestions)"

definition OntologyValidator_validateOntology ::
  "ValidationRule list \<Rightarrow> OntologyClass list \<Rightarrow> OntologyProperty list \<Rightarrow> OntologyRelationship list
     \<Rightarrow> OntologyValidationResult" where
  "OntologyValidator_validateOntology rules cs ps rs =
     (let ctx = make_context cs ps rs
      in case run_rules rules ctx [] [] [] of
           (allErrors, allWarnings, allSuggestions) \<Rightarrow>
             \<lparr>valid = (filter (\<lambda>e. err_severity e = Critical) allErrors = []),
              errors = allErrors, warnings = allWarnings, suggestions = allSuggestions,
              metrics = calculateValidationMetrics ctx allErrors allWarnings\<rparr>)"

subsection \<open>What the specification says of the rule loop\<close>

text \<open>
  The contribution of one rule to the report, as the specification words it: the rule's own
  entries when it returns, a single critical entry naming the rule when it throws.
\<close>

definition rule_error_entries :: "ValidationContext \<Rightarrow> ValidationRule \<Rightarrow> ValidationError list" where
  "rule_error_entries ctx rule =
     (case validator rule ctx of Inr result \<Rightarrow> res_errors result
      | Inl error \<Rightarrow> [rule_failed_error rule error])"

definition rule_warning_entries :: "ValidationContext \<Rightarrow> ValidationRule \<Rightarrow> ValidationWarning list" where
  "rule_warning_entries ctx rule =
     (case validator rule ctx of Inr result \<Rightarrow> res_warnings result | Inl error \<Rightarrow> [])"

definition rule_suggestion_entries ::
  "ValidationContext \<Rightarrow> ValidationRule \<Rightarrow> ValidationSuggestion list" where
  "rule_suggestion_entries ctx rule =
     (case validator rule ctx of Inr result \<Rightarrow> res_suggestions result | Inl error \<Rightarrow> [])"

definition in_unit_interval :: "rat option \<Rightarrow> bool" where
  "in_unit_interval m = (case m of Some v \<Rightarrow> 0 \<le> v \<and> v \<le> 1 | None \<Rightarrow> False)"

text \<open>A custom rule that throws, and a two-class cycle, used as test inputs.\<close>

definition failing_rule :: ValidationRule where
  "failing_rule = \<lparr>rule_name = ''always_throws'', rule_description = ''A custom rule that throws'',
     rule_severity = Minor, validator = (\<lambda>ctx. Inl ''Error: boom'')\<rparr>"

definition cyclic_classes :: "OntologyClass list" where
  "cyclic_classes = [plain_class ''A'' [''B''] [''B''], plain_class ''B'' [''A''] [''A'']]"

section \<open>Concept and relationship extraction (services/DomainAnalyzer.ts)\<close>

record Tiddler =
  tid_title :: string
  tid_text :: string
  tid_tags :: "string list option"

datatype concept_type = Entity | Process | Quality | Abstract

record ExtractedConcept =
  ec_name :: string
  ec_type :: concept_type
  frequency :: nat
  contexts :: "string list"
  ec_confidence :: rat

record ExtractedRelationship =
  er_source :: string
  er_target :: string
  er_type :: string
  strength :: rat
  evidence :: "string list"
  er_confidence :: rat

definition stopWords :: "string list" where
  "stopWords =
     [''the'', ''a'', ''an'', ''and'', ''or'', ''but'', ''in'', ''on'', ''at'', ''to'', ''for'', ''of'',
      ''with'', ''by'', ''is'', ''are'', ''was'', ''were'', ''be'', ''been'', ''being'', ''have'',
      ''has'', ''had'', ''do'', ''does'', ''did'', ''will'', ''would'', ''could'', ''should'', ''may'',
      ''might'', ''can'', ''this'', ''that'', ''these'', ''those'']"

definition conceptTypes :: "(concept_type \<times> string list) list" where
  "conceptTypes =
     [(Entity, [''person'', ''organization'', ''place'', ''thing'', ''object'', ''system'', ''tool'',
                ''device'']),
      (Process, [''process'', ''method'', ''procedure'', ''workflow'', ''algorithm'', ''technique'',
                 ''approach'']),
      (Quality, [''property'', ''attribute'', ''characteristic'', ''feature'', ''quality'', ''trait'']),
      (Abstract, [''concept'', ''idea'', ''theory'', ''principle'', ''rule'', ''law'', ''pattern''])]"

subsection \<open>Tokens, sentences and phrases\<close>

definition tokenize :: "string \<Rightarrow> string list" where
  "tokenize txt =
     filter (\<lambda>word. length word > 2 \<and> word \<notin> set stopWords)
       (split_ws (map (\<lambda>c. if is_word_char c \<or> is_space c then c else CHR '' '') txt))"

definition splitIntoSentences :: "string \<Rightarrow> string list" where
  "splitIntoSentences txt =
     filter (\<lambda>s. length (trim s) > 10) (split_on (\<lambda>c. c \<in> set ''.!?'') txt)"

definition isValidConcept :: "string \<Rightarrow> bool" where
  "isValidConcept concept =
     (length concept > 2 \<and> concept \<notin> set stopWords \<and>
      (case concept of [] \<Rightarrow> False | c # cs \<Rightarrow> is_lower c \<or> is_upper c) \<and>
      \<not> (concept \<noteq> [] \<and> list_all is_digit concept))"

definition isValidPhrase :: "string \<Rightarrow> bool" where
  "isValidPhrase phrase =
     (let ws = split_ws phrase
      in length ws \<ge> 2 \<and> list_all isValidConcept ws \<and> \<not> list_ex (\<lambda>word. word \<in> set stopWords) ws)"

definition clean_phrase :: "string \<Rightarrow> string" where
  "clean_phrase p = trim (filter (\<lambda>c. is_word_char c \<or> is_space c) p)"

text \<open>
  The loop of \<open>extractPhrases\<close> over the words of one sentence: at each position the
  two-word window, then the three-word window when three words are left.
\<close>

fun phrases_of_words :: "string list \<Rightarrow> string list" where
  "phrases_of_words (w1 # w2 # rest) =
     (let twoWordPhrase = clean_phrase (w1 @ '' '' @ w2)
      in if length twoWordPhrase > 5 \<and> isValidPhrase twoWordPhrase then [twoWordPhrase] else [])
     @ (case rest of
          [] \<Rightarrow> []
        | w3 # rest' \<Rightarrow>
            (let threeWordPhrase = clean_phrase (w1 @ '' '' @ w2 @ '' '' @ w3)
             in if length threeWordPhrase > 8 \<and> isValidPhrase threeWordPhrase
                then [threeWordPhrase] else []))
     @ phrases_of_words (w2 # rest)"
| "phrases_of_words ws = []"

definition extractPhrases :: "string \<Rightarrow> string list" where
  "extractPhrases txt = concat (map (\<lambda>sentence. phrases_of_words (split_ws sentence))
                                (splitIntoSentences txt))"

subsection \<open>The concept table\<close>

text \<open>
  \<open>concept[0] === concept[0].toUpperCase()\<close>. On the empty string \<open>concept[0]\<close> is
  undefined and the source throws a TypeError (\<open>None\<close> here).
\<close>

definition first_is_upper :: "string \<Rightarrow> bool option" where
  "first_is_upper concept = (case concept of [] \<Rightarrow> None | c # cs \<Rightarrow> Some (c = upper_char c))"

definition inferConceptType :: "string \<Rightarrow> concept_type option" where
  "inferConceptType concept =
     (let lowerConcept = toLowerCase concept
      in case find (\<lambda>(t, indicators). list_ex (\<lambda>indicator. str_includes lowerConcept indicator)
                      indicators) conceptTypes of
           Some (t, indicators) \<Rightarrow> Some t
         | None \<Rightarrow>
             if endsWith lowerConcept ''ing'' \<or> endsWith lowerConcept ''tion''
                \<or> endsWith lowerConcept ''ment'' then Some Process
             else if endsWith lowerConcept ''ness'' \<or> endsWith lowerConcept ''ity''
                     \<or> endsWith lowerConcept ''able'' then Some Quality
             else map_option (\<lambda>up. if up then Entity else Abstract) (first_is_upper concept))"

definition calculateConceptConfidence :: "string \<Rightarrow> rat option" where
  "calculateConceptConfidence concept =
     map_option (\<lambda>up.
        min ((5 / 10)
             + (if up then 2 / 10 else 0)
             + (if str_includes concept '' '' \<or> str_includes concept ''-'' then 1 / 10 else 0)
             + (if str_includes concept ''_'' \<or> list_ex is_upper (drop 1 concept)
                then 15 / 100 else 0)) 1)
       (first_is_upper concept)"

text \<open>
  \<open>addOrUpdateConcept\<close>; \<open>None\<close> is the TypeError of an empty new name.
\<close>

definition addOrUpdateConcept ::
  "(string \<times> ExtractedConcept) list \<Rightarrow> string \<Rightarrow> string
     \<Rightarrow> (string \<times> ExtractedConcept) list option" where
  "addOrUpdateConcept conceptMap name ctxt =
     (case map_of conceptMap name of
        Some existing \<Rightarrow>
          Some (AList.update name
                  (existing\<lparr>frequency := Suc (frequency existing),
                             contexts := (if ctxt \<in> set (contexts existing) then contexts existing
                                          else contexts existing @ [ctxt])\<rparr>) conceptMap)
      | None \<Rightarrow>
          Option.bind (inferConceptType name) (\<lambda>t.
          Option.bind (calculateConceptConfidence name) (\<lambda>conf.
            Some (AList.update name
                    \<lparr>ec_name = name, ec_type = t, frequency = 1, contexts = [ctxt],
                     ec_confidence = conf\<rparr> conceptMap))))"

fun addConcepts ::
  "(string \<times> ExtractedConcept) list \<Rightarrow> string list \<Rightarrow> string
     \<Rightarrow> (string \<times> ExtractedConcept) list option" where
  "addConcepts conceptMap [] ctxt = Some conceptMap"
| "addConcepts conceptMap (name # names) ctxt =
     Option.bind (addOrUpdateConcept conceptMap name ctxt) (\<lambda>m. addConcepts m names ctxt)"

text \<open>The body of the loop of \<open>extractConcepts\<close> for one document.\<close>

definition extractConcepts_tiddler ::
  "(string \<times> ExtractedConcept) list \<Rightarrow> Tiddler \<Rightarrow> (string \<times> ExtractedConcept) list option" where
  "extractConcepts_tiddler conceptMap tiddler =
     (let title = tid_title tiddler;
          combinedText = toLowerCase (title @ '' '' @ tid_text tiddler);
          ws = tokenize combinedText;
          phrases = extractPhrases combinedText
      in Option.bind (addConcepts conceptMap (filter isValidConcept ws) title) (\<lambda>m1.
         Option.bind (addConcepts m1 (filter isValidConcept phrases) title) (\<lambda>m2.
           case tid_tags tiddler of
             None \<Rightarrow> Some m2
           | Some tags \<Rightarrow>
               addConcepts m2 (map toLowerCase (filter (\<lambda>tag. tag \<noteq> []) tags)) title)))"

fun extractConcepts_loop ::
  "(string \<times> ExtractedConcept) list \<Rightarrow> Tiddler list \<Rightarrow> (string \<times> ExtractedConcept) list option" where
  "extractConcepts_loop conceptMap [] = Some conceptMap"
| "extractConcepts_loop conceptMap (tiddler # tiddlers) =
     Option.bind (extractConcepts_tiddler conceptMap tiddler)
       (\<lambda>m. extractConcepts_loop m tiddlers)"

text \<open>
  \<open>Array.prototype.sort\<close> is stable; sorting by a descending number is \<open>sort_key\<close> on
  its negation.
\<close>

definition extractConcepts :: "Tiddler list \<Rightarrow> ExtractedConcept list option" where
  "extractConcepts tiddlers =
     map_option (\<lambda>conceptMap.
        sort_key (\<lambda>c. - int (frequency c))
          (filter (\<lambda>concept. frequency concept > 1) (map snd conceptMap)))
       (extractConcepts_loop [] tiddlers)"

subsection \<open>Regular expressions of the relationship patterns\<close>

text \<open>
  The fragment of regular expressions the patterns use. \<open>rx_ends r s i\<close> lists the
  positions at which a match of \<open>r\<close> that starts at position \<open>i\<close> of \<open>s\<close> can end, over all
  the choices backtracking may make; \<open>RegExp.test\<close> succeeds when some start position has
  an end position.
\<close>

datatype rx =
  Lit string | Alt "rx list" | Seq "rx list" | Opt rx | Spaces0 | Spaces1 | WordBoundary

definition word_at :: "string \<Rightarrow> nat \<Rightarrow> bool" where
  "word_at s i = (i < length s \<and> is_word_char (s ! i))"

definition space_run :: "string \<Rightarrow> nat \<Rightarrow> nat" where
  "space_run s i = length (takeWhile is_space (drop i s))"

fun rx_ends :: "rx \<Rightarrow> string \<Rightarrow> nat \<Rightarrow> nat list"
  and rx_ends_alt :: "rx list \<Rightarrow> string \<Rightarrow> nat \<Rightarrow> nat list"
  and rx_ends_seq :: "rx list \<Rightarrow> string \<Rightarrow> nat list \<Rightarrow> nat list" where
  "rx_ends (Lit t) s i = (if take (length t) (drop i s) = t then [i + length t] else [])"
| "rx_ends (Alt rs) s i = rx_ends_alt rs s i"
| "rx_ends (Seq rs) s i = rx_ends_seq rs s [i]"
| "rx_ends (Opt r) s i = rx_ends r s i @ [i]"
| "rx_ends Spaces0 s i = rev [i ..< Suc (i + space_run s i)]"
| "rx_ends Spaces1 s i = rev [Suc i ..< Suc (i + space_run s i)]"
| "rx_ends WordBoundary s i =
     (if (i > 0 \<and> word_at s (i - 1)) \<noteq> word_at s i then [i] else [])"
| "rx_ends_alt [] s i = []"
| "rx_ends_alt (r # rs) s i = rx_ends r s i @ rx_ends_alt rs s i"
| "rx_ends_seq [] s starts = starts"
| "rx_ends_seq (r # rs) s starts = rx_ends_seq rs s (concat (map (rx_ends r s) starts))"

definition rx_test :: "rx \<Rightarrow> string \<Rightarrow> bool" where
  "rx_test r s = list_ex (\<lambda>i. rx_ends r s i \<noteq> []) [0 ..< Suc (length s)]"

definition bounded_words :: "string list \<Rightarrow> rx" where
  "bounded_words ws = Seq [WordBoundary, Alt (map Lit ws), WordBoundary]"

definition relationshipPatterns :: "(string \<times> rx) list" where
  "relationshipPatterns =
     [(''is-a'', Seq [WordBoundary, Alt [Lit ''is'', Lit ''are'', Lit ''was'', Lit ''were''], Spaces1,
                      Opt (Alt [Lit ''a'', Lit ''an'', Lit ''the'']), Spaces0, WordBoundary]),
      (''has-a'', bounded_words [''has'', ''have'', ''had'', ''contains'', ''includes'']),
      (''part-of'', bounded_words [''part of'', ''belongs to'', ''component of'', ''element of'']),
      (''causes'', bounded_words [''causes'', ''leads to'', ''results in'', ''triggers'']),
      (''enables'', bounded_words [''enables'', ''allows'', ''permits'', ''facilitates'']),
      (''similar-to'', bounded_words [''similar to'', ''like'', ''resembles'', ''comparable to'']),
      (''related-to'', bounded_words [''related to'', ''associated with'', ''connected to'',
                                      ''linked to''])]"

definition identifyRelationshipType :: "string \<Rightarrow> string list \<Rightarrow> string" where
  "identifyRelationshipType sentence concepts =
     (case find (\<lambda>(t, pattern). rx_test pattern sentence) relationshipPatterns of
        Some (t, pattern) \<Rightarrow> t
      | None \<Rightarrow> ''related-to'')"

subsection \<open>Floating-point strengths\<close>

text \<open>
  The \<open>strength\<close> of a relationship is a JavaScript number, an IEEE 754 double. It is
  held here by its exact rational value. \<open>to_double\<close> rounds a rational to the nearest
  double, ties to the even significand: \<open>binary_exponent a\<close> is the \<open>e\<close> with
  \<open>2^e \<le> a < 2^(e+1)\<close>, and the significand has 53 bits, so that the doubles near \<open>a\<close>
  are the multiples of \<open>2^(e-52)\<close>. The exponent range of a double (overflow beyond
  about \<open>1.8e308\<close>, subnormal numbers below about \<open>2.2e-308\<close>) is left out: strengths
  start at 0.3 and grow by 0.1 per sentence. \<open>double_add\<close> is the addition of two doubles:
  the exact sum, rounded.
\<close>

function bitlen :: "int \<Rightarrow> nat" where
  "bitlen n = (if n \<le> 0 then 0 else Suc (bitlen (n div 2)))"
  by pat_completeness auto
termination
  by (relation "measure nat") auto

declare bitlen.simps [simp del]

definition pow2 :: "int \<Rightarrow> rat" where
  "pow2 k = (if 0 \<le> k then 2 ^ nat k else 1 / 2 ^ nat (- k))"

definition round_half_even :: "rat \<Rightarrow> int" where
  "round_half_even q =
     (let f = \<lfloor>q\<rfloor>; d = q - of_int f
      in if d < 1 / 2 then f else if 1 / 2 < d then f + 1 else if even f then f else f + 1)"

definition binary_exponent :: "rat \<Rightarrow> int" where
  "binary_exponent a =
     (case quotient_of a of (n, d) \<Rightarrow>
        let e0 = int (bitlen n) - int (bitlen d)
        in if pow2 e0 \<le> a then e0 else e0 - 1)"

definition to_double :: "rat \<Rightarrow> rat" where
  "to_double q =
     (if q = 0 then 0
      else let a = \<bar>q\<bar>; ulp = pow2 (binary_exponent a - 52)
           in sgn q * of_int (round_half_even (a / ulp)) * ulp)"

definition double_add :: "rat \<Rightarrow> rat \<Rightarrow> rat" where
  "double_add x y = to_double (x + y)"

text \<open>The values of the literals \<open>0.1\<close>, \<open>0.2\<close> and \<open>0.3\<close> of the source.\<close>

definition js_0_1 :: rat where
  "js_0_1 = 3602879701896397 / 36028797018963968"

definition js_0_2 :: rat where
  "js_0_2 = 3602879701896397 / 18014398509481984"

definition js_0_3 :: rat where
  "js_0_3 = 5404319552844595 / 18014398509481984"

subsection \<open>Relationships\<close>

definition indexOf_int :: "string \<Rightarrow> string \<Rightarrow> int" where
  "indexOf_int s t = (case str_indexOf s t of Some i \<Rightarrow> int i | None \<Rightarrow> - 1)"

text \<open>
  \<open>calculateRelationshipConfidence\<close>. It is only called on sentences of more than ten
  characters, so that the division by the sentence length is a proper one.
\<close>

definition calculateRelationshipConfidence :: "string \<Rightarrow> string \<Rightarrow> string \<Rightarrow> rat" where
  "calculateRelationshipConfidence sentence concept1 concept2 =
     (let distance = \<bar>indexOf_int sentence concept1 - indexOf_int sentence concept2\<bar>;
          proximity = max 0 (1 - of_int distance / of_nat (length sentence))
      in min ((3 / 10) + proximity * (3 / 10)
              + (if rx_test (bounded_words [''is'', ''are'', ''has'', ''have'', ''causes'', ''enables''])
                      sentence
                 then 2 / 10 else 0)) 1)"

definition rel_matches :: "string \<Rightarrow> string \<Rightarrow> ExtractedRelationship \<Rightarrow> bool" where
  "rel_matches a b r =
     ((er_source r = a \<and> er_target r = b) \<or> (er_source r = b \<and> er_target r = a))"

text \<open>
  The in-place update of the relationship that \<open>find\<close> returned, the first match:
  \<open>existing.strength += 0.1\<close> is an addition of doubles.
\<close>

fun strengthen_first ::
  "(ExtractedRelationship \<Rightarrow> bool) \<Rightarrow> string \<Rightarrow> ExtractedRelationship list
     \<Rightarrow> ExtractedRelationship list" where
  "strengthen_first P ev [] = []"
| "strengthen_first P ev (r # rs) =
     (if P r then r\<lparr>strength := double_add (strength r) js_0_1,
                     evidence := evidence r @ [ev]\<rparr> # rs
      else r # strengthen_first P ev rs)"

definition observe_pair ::
  "string \<Rightarrow> string \<Rightarrow> ExtractedRelationship list \<Rightarrow> string \<times> string
     \<Rightarrow> ExtractedRelationship list" where
  "observe_pair sentence relationshipType rels p =
     (case p of (ci, cj) \<Rightarrow>
        if find (rel_matches ci cj) rels \<noteq> None
        then strengthen_first (rel_matches ci cj) (take 100 sentence) rels
        else rels @
               [\<lparr>er_source = ci, er_target = cj, er_type = relationshipType, strength = js_0_3,
                 evidence = [take 100 sentence],
                 er_confidence = calculateRelationshipConfidence sentence ci cj\<rparr>])"

definition observe_sentence ::
  "string list \<Rightarrow> ExtractedRelationship list \<Rightarrow> string \<Rightarrow> ExtractedRelationship list" where
  "observe_sentence conceptNames rels sentence =
     (let foundConcepts = filter (\<lambda>concept. str_includes sentence concept) conceptNames
      in if length foundConcepts \<ge> 2
         then foldl (observe_pair sentence (identifyRelationshipType sentence foundConcepts))
                rels (pairs foundConcepts)
         else rels)"

definition observe_tiddler ::
  "string list \<Rightarrow> ExtractedRelationship list \<Rightarrow> Tiddler \<Rightarrow> ExtractedRelationship list" where
  "observe_tiddler conceptNames rels tiddler =
     foldl (observe_sentence conceptNames) rels
       (splitIntoSentences (toLowerCase (tid_text tiddler)))"

definition extractRelationships ::
  "Tiddler list \<Rightarrow> ExtractedConcept list \<Rightarrow> ExtractedRelationship list" where
  "extractRelationships tiddlers concepts =
     (let conceptNames = foldl set_add [] (map ec_name concepts);
          rels = foldl (observe_tiddler conceptNames) [] tiddlers
      in sort_key (\<lambda>r. - strength r) (filter (\<lambda>r. strength r > js_0_2) rels))"

subsection \<open>Notions used to state the consolidation property\<close>

definition all_sentences :: "Tiddler list \<Rightarrow> string list" where
  "all_sentences tiddlers =
     concat (map (\<lambda>tiddler. splitIntoSentences (toLowerCase (tid_text tiddler))) tiddlers)"

definition cooccurrences :: "Tiddler list \<Rightarrow> string \<Rightarrow> string \<Rightarrow> nat" where
  "cooccurrences tiddlers a b =
     length (filter (\<lambda>sentence. str_includes sentence a \<and> str_includes sentence b)
               (all_sentences tiddlers))"

text \<open>Auxiliary notions for the consolidation proof.\<close>

definition same_pair :: "string \<Rightarrow> string \<Rightarrow> string \<times> string \<Rightarrow> bool" where
  "same_pair a b p = (case p of (c, d) \<Rightarrow> (c = a \<and> d = b) \<or> (c = b \<and> d = a))"

text \<open>The strength that starts at 0.3 and has 0.1 added to it \<open>k\<close> times, in doubles.\<close>

fun accumulated_strength :: "nat \<Rightarrow> rat" where
  "accumulated_strength 0 = js_0_3"
| "accumulated_strength (Suc k) = double_add (accumulated_strength k) js_0_1"

definition consolidated :: "ExtractedRelationship list \<Rightarrow> string \<Rightarrow> string \<Rightarrow> nat \<Rightarrow> bool" where
  "consolidated rels a b k =
     (if k = 0 then filter (rel_matches a b) rels = []
      else \<exists>r. filter (rel_matches a b) rels = [r] \<and>
               strength r = accumulated_strength (k - 1) \<and> length (evidence r) = k)"

text \<open>Two one-document corpora and plain concepts, used as test inputs.\<close>

definition merge_corpus :: "Tiddler list" where
  "merge_corpus =
     [\<lparr>tid_title = ''Note'', tid_text = ''Alpha is a beta thing. Alpha has beta inside.'',
       tid_tags = None\<rparr>]"

definition plain_concept :: "string \<Rightarrow> ExtractedConcept" where
  "plain_concept n =
     \<lparr>ec_name = n, ec_type = Abstract, frequency = 2, contexts = [], ec_confidence = 1 / 2\<rparr>"

definition repeat_corpus :: "Tiddler list" where
  "repeat_corpus =
     [\<lparr>tid_title = ''Note'',
       tid_text = ''Alpha is a beta. Alpha is a beta. Alpha is a beta. Alpha is a beta. Alpha is a beta. Alpha is a beta. Alpha is a beta. Alpha is a beta. Alpha is a beta.'',
       tid_tags = None\<rparr>]"

text \<open>What concept extraction yields on the two corpora.\<close>

definition merge_concepts :: "ExtractedConcept list" where
  "merge_concepts =
     [\<lparr>ec_name = ''alpha'', ec_type = Abstract, frequency = 2, contexts = [''Note''],
       ec_confidence = 1 / 2\<rparr>,
      \<lparr>ec_name = ''beta'', ec_type = Abstract, frequency = 2, contexts = [''Note''],
       ec_confidence = 1 / 2\<rparr>]"

definition repeat_concepts :: "ExtractedConcept list" where
  "repeat_concepts =
     [\<lparr>ec_name = ''alpha'', ec_type = Abstract, frequency = 9, contexts = [''Note''],
       ec_confidence = 1 / 2\<rparr>,
      \<lparr>ec_name = ''beta'', ec_type = Abstract, frequency = 9, contexts = [''Note''],
       ec_confidence = 1 / 2\<rparr>]"

section \<open>The hierarchy builder (services/ConceptHierarchy.ts)\<close>

text \<open>
  A node's \<open>children\<close> array holds references to node objects of the \<open>hierarchy\<close> map;
  here it holds their ids. Node objects are only created by \<open>initializeNodes\<close> (before
  any edge exists) and for a type parent whose id is not yet in the map, so an id always
  denotes the object the source refers to.
\<close>

record HierarchyNode =
  hn_id :: string
  hn_name :: string
  level :: nat
  children :: "string list"
  parent :: "string option"
  hn_confidence :: rat
  hn_evidence :: "string list"
  hn_properties :: "string list"

record ConceptHierarchy =
  hierarchy :: "(string \<times> HierarchyNode) list"
  rootNodes :: "string list"

definition generateId :: "string \<Rightarrow> string" where
  "generateId name = map (\<lambda>c. if is_lower c \<or> is_digit c then c else CHR ''_'') (toLowerCase name)"

definition inferProperties :: "ExtractedConcept \<Rightarrow> string list" where
  "inferProperties concept =
     (case ec_type concept of
        Entity \<Rightarrow> [''hasName'', ''hasIdentifier'', ''hasDescription'']
      | Process \<Rightarrow> [''hasInput'', ''hasOutput'', ''hasDuration'', ''hasSteps'']
      | Quality \<Rightarrow> [''hasValue'', ''hasUnit'', ''hasMeasurement'']
      | Abstract \<Rightarrow> [''hasDefinition'', ''hasContext'', ''hasApplication''])"

definition initializeNodes :: "ExtractedConcept list \<Rightarrow> ConceptHierarchy" where
  "initializeNodes concepts =
     foldl (\<lambda>h concept.
        let node = \<lparr>hn_id = generateId (ec_name concept), hn_name = ec_name concept, level = 0,
                     children = [], parent = None, hn_confidence = ec_confidence concept,
                     hn_evidence = contexts concept, hn_properties = inferProperties concept\<rparr>
        in \<lparr>hierarchy = AList.update (hn_id node) node (hierarchy h),
            rootNodes = set_add (rootNodes h) (hn_id node)\<rparr>)
       \<lparr>hierarchy = [], rootNodes = []\<rparr> concepts"

text \<open>
  The test \<open>if (x.parent)\<close> of the source: an absent parent and the empty string are
  both falsy.
\<close>

definition has_parent :: "HierarchyNode \<Rightarrow> bool" where
  "has_parent node = (case parent node of None \<Rightarrow> False | Some p \<Rightarrow> p \<noteq> [])"

function hasCycleDFS :: "ConceptHierarchy \<Rightarrow> string \<Rightarrow> string \<Rightarrow> string list \<Rightarrow> bool" where
  "hasCycleDFS h currentId targetId visited =
     (if currentId = targetId then True
      else if currentId \<in> set visited then False
      else case map_of (hierarchy h) currentId of
             None \<Rightarrow> False
           | Some current \<Rightarrow>
               (case parent current of
                  None \<Rightarrow> False
                | Some p \<Rightarrow> if p \<noteq> [] then hasCycleDFS h p targetId (currentId # visited)
                            else False))"
  by pat_completeness auto
termination
proof (relation "measure (\<lambda>(h, currentId, targetId, visited).
                   card (set (map fst (hierarchy h)) - set visited))", goal_cases)
  case 1
  show ?case by simp
next
  case (2 h currentId targetId visited current p)
  from \<open>map_of (hierarchy h) currentId = Some current\<close>
  have "(currentId, current) \<in> set (hierarchy h)" by (rule map_of_SomeD)
  then have "currentId \<in> set (map fst (hierarchy h))" by force
  with \<open>currentId \<notin> set visited\<close>
  have "set (map fst (hierarchy h)) - set (currentId # visited)
          \<subset> set (map fst (hierarchy h)) - set visited" by auto
  then have "card (set (map fst (hierarchy h)) - set (currentId # visited))
               < card (set (map fst (hierarchy h)) - set visited)"
    by (intro psubset_card_mono) simp_all
  then show ?case by simp
qed

definition wouldCreateCycle :: "ConceptHierarchy \<Rightarrow> string \<Rightarrow> string \<Rightarrow> bool" where
  "wouldCreateCycle h parentId childId = hasCycleDFS h parentId childId []"

text \<open>
  \<open>addParentChildRelationship\<close>, on the two node objects the caller looked up. The child
  object gets its parent and confidence, the child is pushed onto the parent object's
  \<open>children\<close>, and the child's id leaves \<open>rootNodes\<close>. Parent and child are different
  objects when the edge is added, since equal ids are refused by the cycle check.
\<close>

definition addParentChildRelationship ::
  "ConceptHierarchy \<Rightarrow> HierarchyNode \<Rightarrow> HierarchyNode \<Rightarrow> rat \<Rightarrow> ConceptHierarchy" where
  "addParentChildRelationship h parentNode child confidence =
     (if has_parent child then h
      else if wouldCreateCycle h (hn_id parentNode) (hn_id child) then h
      else
        let child' = child\<lparr>parent := Some (hn_id parentNode),
                            hn_confidence := min (hn_confidence child + confidence * (1 / 10)) 1\<rparr>;
            parent' = parentNode\<lparr>children := children parentNode @ [hn_id child]\<rparr>
        in \<lparr>hierarchy = AList.update (hn_id parentNode) parent'
                           (AList.update (hn_id child) child' (hierarchy h)),
            rootNodes = set_delete (rootNodes h) (hn_id child)\<rparr>)"

definition buildIsARelationships ::
  "ConceptHierarchy \<Rightarrow> ExtractedRelationship list \<Rightarrow> ConceptHierarchy" where
  "buildIsARelationships h rels =
     foldl (\<lambda>h rel.
        let childId = generateId (er_source rel);
            parentId = generateId (er_target rel)
        in case (map_of (hierarchy h) childId, map_of (hierarchy h) parentId) of
             (Some childNode, Some parentNode) \<Rightarrow>
               addParentChildRelationship h parentNode childNode (er_confidence rel)
           | _ \<Rightarrow> h)
       h (filter (\<lambda>r. er_type r = ''is-a'') rels)"

subsection \<open>Type-based and linguistic inference\<close>

definition type_name :: "concept_type \<Rightarrow> string" where
  "type_name t = (case t of Entity \<Rightarrow> ''entity'' | Process \<Rightarrow> ''process''
                  | Quality \<Rightarrow> ''quality'' | Abstract \<Rightarrow> ''abstract'')"

definition capitalize :: "string \<Rightarrow> string" where
  "capitalize s = (case s of [] \<Rightarrow> [] | c # cs \<Rightarrow> upper_char c # cs)"

definition calculateSpecificity :: "ExtractedConcept \<Rightarrow> rat" where
  "calculateSpecificity concept =
     (let wordCount = length (split_ws (ec_name concept))
      in min ((5 / 10) + (of_nat wordCount - 1) * (2 / 10)
              + (if frequency concept < 3 then 2 / 10 else 0)
              + (if length (contexts concept) < 3 then 1 / 10 else 0)) 1)"

definition specificity_level :: "ExtractedConcept \<Rightarrow> nat" where
  "specificity_level concept =
     (let specificity = calculateSpecificity concept
      in if specificity < 3 / 10 then 0 else if specificity < 7 / 10 then 1 else 2)"

text \<open>
  A \<open>Map\<close> from a key to the list of the elements with that key, in the order in which
  the keys were first met (\<open>conceptsByType\<close> and \<open>groupBySpecificity\<close>).
\<close>

fun first_occurrences :: "'a list \<Rightarrow> 'a list \<Rightarrow> 'a list" where
  "first_occurrences seen [] = []"
| "first_occurrences seen (x # xs) =
     (if x \<in> set seen then first_occurrences seen xs else x # first_occurrences (x # seen) xs)"

definition group_by :: "('a \<Rightarrow> 'k) \<Rightarrow> 'a list \<Rightarrow> ('k \<times> 'a list) list" where
  "group_by key xs =
     map (\<lambda>k. (k, filter (\<lambda>x. key x = k) xs)) (first_occurrences [] (map key xs))"

definition groupBySpecificity :: "ExtractedConcept list \<Rightarrow> (nat \<times> ExtractedConcept list) list" where
  "groupBySpecificity concepts = group_by specificity_level concepts"

definition calculateParentScore :: "ExtractedConcept \<Rightarrow> ExtractedConcept \<Rightarrow> rat" where
  "calculateParentScore child parentConcept =
     (let sharedContexts = filter (\<lambda>ctx. ctx \<in> set (contexts parentConcept)) (contexts child)
      in min (of_nat (length sharedContexts) * (2 / 10)
              + (if str_includes (ec_name child) (ec_name parentConcept)
                    \<or> str_includes (ec_name parentConcept) (ec_name child) then 3 / 10 else 0)
              + (if frequency parentConcept > frequency child then 2 / 10 else 0)) 1)"

fun findBestParent_loop ::
  "ExtractedConcept \<Rightarrow> ExtractedConcept list \<Rightarrow> ExtractedConcept option \<Rightarrow> rat
     \<Rightarrow> ExtractedConcept option \<times> rat" where
  "findBestParent_loop concept [] bestParent bestScore = (bestParent, bestScore)"
| "findBestParent_loop concept (candidate # candidates) bestParent bestScore =
     (let score = calculateParentScore concept candidate
      in if score > bestScore then findBestParent_loop concept candidates (Some candidate) score
         else findBestParent_loop concept candidates bestParent bestScore)"

definition findBestParent :: "ExtractedConcept \<Rightarrow> ExtractedConcept list \<Rightarrow> ExtractedConcept option" where
  "findBestParent concept candidates =
     (case findBestParent_loop concept candidates None 0 of
        (bestParent, bestScore) \<Rightarrow> if bestScore > 3 / 10 then bestParent else None)"

text \<open>The body of the inner loop of \<open>createTypeHierarchy\<close> for one concept of one level.\<close>

definition place_concept ::
  "string \<Rightarrow> (nat \<times> ExtractedConcept list) list \<Rightarrow> nat \<Rightarrow> ConceptHierarchy \<Rightarrow> ExtractedConcept
     \<Rightarrow> ConceptHierarchy" where
  "place_concept typeParentId specificConcepts lvl h concept =
     (case map_of (hierarchy h) (generateId (ec_name concept)) of
        None \<Rightarrow> h
      | Some conceptNode \<Rightarrow>
          if has_parent conceptNode then h
          else if lvl = 0 then
            (case map_of (hierarchy h) typeParentId of
               Some typeParent \<Rightarrow> addParentChildRelationship h typeParent conceptNode (6 / 10)
             | None \<Rightarrow> h)
          else
            (let parentConcepts = (case map_of specificConcepts (lvl - 1) of
                                     Some cs \<Rightarrow> cs | None \<Rightarrow> [])
             in case findBestParent concept parentConcepts of
                  None \<Rightarrow> h
                | Some bestParent \<Rightarrow>
                    (case map_of (hierarchy h) (generateId (ec_name bestParent)) of
                       None \<Rightarrow> h
                     | Some parentNode \<Rightarrow>
                         addParentChildRelationship h parentNode conceptNode (5 / 10))))"

definition createTypeHierarchy ::
  "ConceptHierarchy \<Rightarrow> concept_type \<Rightarrow> ExtractedConcept list \<Rightarrow> ConceptHierarchy" where
  "createTypeHierarchy h t concepts =
     (let typeParentId = generateId (type_name t);
          h1 = (if map_of (hierarchy h) typeParentId = None
                then \<lparr>hierarchy = AList.update typeParentId
                                    \<lparr>hn_id = typeParentId, hn_name = capitalize (type_name t),
                                     level = 0, children = [], parent = None,
                                     hn_confidence = 8 / 10,
                                     hn_evidence = [''Inferred from concept types''],
                                     hn_properties = []\<rparr> (hierarchy h),
                      rootNodes = set_add (rootNodes h) typeParentId\<rparr>
                else h);
          specificConcepts = groupBySpecificity concepts
      in foldl (\<lambda>h (lvl, levelConcepts).
                  foldl (place_concept typeParentId specificConcepts lvl) h levelConcepts)
           h1 specificConcepts)"

definition inferLinguisticHierarchies ::
  "ConceptHierarchy \<Rightarrow> ExtractedConcept list \<Rightarrow> ConceptHierarchy" where
  "inferLinguisticHierarchies h concepts =
     foldl (\<lambda>h concept.
        let ws = split_ws (ec_name concept)
        in if length ws > 1
           then foldl (\<lambda>h potentialParent.
                   case (map_of (hierarchy h) (generateId (ec_name concept)),
                         map_of (hierarchy h) (generateId (ec_name potentialParent))) of
                     (Some childNode, Some parentNode) \<Rightarrow>
                       if \<not> has_parent childNode
                       then addParentChildRelationship h parentNode childNode (4 / 10) else h
                   | _ \<Rightarrow> h)
                  h (concat (map (\<lambda>word.
                       case find (\<lambda>c. toLowerCase (ec_name c) = toLowerCase word) concepts of
                         Some c \<Rightarrow> [c] | None \<Rightarrow> []) ws))
           else h)
       h concepts"

definition inferMissingHierarchy ::
  "ConceptHierarchy \<Rightarrow> ExtractedConcept list \<Rightarrow> ConceptHierarchy" where
  "inferMissingHierarchy h concepts =
     inferLinguisticHierarchies
       (foldl (\<lambda>h (t, typeConcepts). createTypeHierarchy h t typeConcepts) h
          (group_by ec_type concepts))
       concepts"

subsection \<open>Levels\<close>

text \<open>
  \<open>calculateNodeLevel\<close> recurses through the \<open>children\<close> arrays. The first argument
  bounds the nesting depth of the recursion; \<open>calculateLevels\<close> allows one level more than
  there are nodes, which a recursion can only exceed by meeting a node twice on one chain
  of children, that is by running forever in the source. \<open>None\<close> is that case: the call
  does not return.
\<close>

fun calculateNodeLevel ::
    "nat \<Rightarrow> (string \<times> HierarchyNode) list \<Rightarrow> string \<Rightarrow> nat \<Rightarrow> (string \<times> HierarchyNode) list option"
  and calculateNodeLevel_children ::
    "nat \<Rightarrow> (string \<times> HierarchyNode) list \<Rightarrow> string list \<Rightarrow> nat
       \<Rightarrow> (string \<times> HierarchyNode) list option" where
  "calculateNodeLevel 0 hs nodeId lvl = None"
| "calculateNodeLevel (Suc depth) hs nodeId lvl =
     (case map_of hs nodeId of
        None \<Rightarrow> Some hs
      | Some node \<Rightarrow>
          calculateNodeLevel_children depth (AList.update nodeId (node\<lparr>level := lvl\<rparr>) hs)
            (children node) (Suc lvl))"
| "calculateNodeLevel_children depth hs [] lvl = Some hs"
| "calculateNodeLevel_children depth hs (childId # rest) lvl =
     (case calculateNodeLevel depth hs childId lvl of
        None \<Rightarrow> None
      | Some hs1 \<Rightarrow> calculateNodeLevel_children depth hs1 rest lvl)"

fun calculateLevels_loop ::
  "(string \<times> HierarchyNode) list \<Rightarrow> string list \<Rightarrow> (string \<times> HierarchyNode) list option" where
  "calculateLevels_loop hs [] = Some hs"
| "calculateLevels_loop hs (rootId # rest) =
     (case calculateNodeLevel (Suc (length hs)) hs rootId 0 of
        None \<Rightarrow> None
      | Some hs1 \<Rightarrow> calculateLevels_loop hs1 rest)"

definition calculateLevels :: "ConceptHierarchy \<Rightarrow> ConceptHierarchy option" where
  "calculateLevels h =
     map_option (\<lambda>hs. h\<lparr>hierarchy := hs\<rparr>) (calculateLevels_loop (hierarchy h) (rootNodes h))"

definition getRootNodes :: "ConceptHierarchy \<Rightarrow> HierarchyNode list" where
  "getRootNodes h =
     concat (map (\<lambda>i. case map_of (hierarchy h) i of Some node \<Rightarrow> [node] | None \<Rightarrow> [])
               (rootNodes h))"

text \<open>
  \<open>buildHierarchy\<close> leaves the instance in the state returned here; its return value is
  \<open>getRootNodes\<close> of that state.
\<close>

definition buildHierarchy ::
  "ExtractedConcept list \<Rightarrow> ExtractedRelationship list \<Rightarrow> ConceptHierarchy option" where
  "buildHierarchy concepts rels =
     calculateLevels
       (inferMissingHierarchy (buildIsARelationships (initializeNodes concepts) rels) concepts)"

text \<open>\<open>toOntologyClasses\<close>; the two time stamps are the parameter \<open>now\<close>.\<close>

definition toOntologyClasses :: "ConceptHierarchy \<Rightarrow> string \<Rightarrow> OntologyClass list" where
  "toOntologyClasses h now =
     map (\<lambda>node.
        \<lparr>cls_id = hn_id node, cls_name = hn_name node,
         cls_description = Some (hn_name node @ '' concept derived from hierarchy analysis''),
         superClasses = (if has_parent node then [the (parent node)] else []),
         subClasses = children node, cls_properties = [], cls_constraints = [], instances = [],
         cls_created = now, cls_modified = now, cls_confidence = hn_confidence node,
         cls_source = Inferred\<rparr>)
       (map snd (hierarchy h))"

text \<open>Test inputs for the hierarchy builder.\<close>

definition bare_concept :: "string \<Rightarrow> ExtractedConcept" where
  "bare_concept n =
     \<lparr>ec_name = n, ec_type = Abstract, frequency = 1, contexts = [], ec_confidence = 1 / 2\<rparr>"

definition is_a :: "string \<Rightarrow> string \<Rightarrow> ExtractedRelationship" where
  "is_a child parentName =
     \<lparr>er_source = child, er_target = parentName, er_type = ''is-a'', strength = js_0_3,
      evidence = [], er_confidence = 1 / 2\<rparr>"

definition node_links :: "ConceptHierarchy \<Rightarrow> (string \<times> string option \<times> string list) list" where
  "node_links h = map (\<lambda>(i, node). (i, parent node, children node)) (hierarchy h)"

definition animal_corpus :: "Tiddler list" where
  "animal_corpus =
     [\<lparr>tid_title = ''Note1'', tid_text = ''Dogs are mammals. Dogs have fur.'',
       tid_tags = Some [''animal'']\<rparr>,
      \<lparr>tid_title = ''Note2'', tid_text = ''Cats are mammals.'', tid_tags = Some [''animal'']\<rparr>]"

text \<open>What extraction yields on that corpus.\<close>

definition animal_concepts :: "ExtractedConcept list" where
  "animal_concepts =
     [\<lparr>ec_name = ''dogs'', ec_type = Abstract, frequency = 2, contexts = [''Note1''],
       ec_confidence = 1 / 2\<rparr>,
      \<lparr>ec_name = ''mammals'', ec_type = Abstract, frequency = 2, contexts = [''Note1'', ''Note2''],
       ec_confidence = 1 / 2\<rparr>,
      \<lparr>ec_name = ''animal'', ec_type = Abstract, frequency = 2, contexts = [''Note1'', ''Note2''],
       ec_confidence = 1 / 2\<rparr>]"

definition animal_relationships :: "ExtractedRelationship list" where
  "animal_relationships =
     [\<lparr>er_source = ''dogs'', er_target = ''mammals'', er_type = ''is-a'', strength = js_0_3,
       evidence = [''dogs are mammals''], er_confidence = 101 / 160\<rparr>]"

subsection \<open>Notions used to state the forest property\<close>

text \<open>
  The parent and the children that the node stored under an id has, the edges from a node
  to its parent, and the forest property: the parent edges form no cycle, a node with a
  parent is listed, once, among the children of that parent, which is a node of the
  hierarchy, and a node listed among the children of a node has that node as its parent
  (so no node is listed under two nodes).
\<close>

definition parent_of :: "(string \<times> HierarchyNode) list \<Rightarrow> string \<Rightarrow> string option" where
  "parent_of hs k = (case map_of hs k of None \<Rightarrow> None | Some node \<Rightarrow> parent node)"

definition children_of :: "(string \<times> HierarchyNode) list \<Rightarrow> string \<Rightarrow> string list" where
  "children_of hs k = (case map_of hs k of None \<Rightarrow> [] | Some node \<Rightarrow> children node)"

definition parent_edges :: "(string \<times> HierarchyNode) list \<Rightarrow> (string \<times> string) set" where
  "parent_edges hs = {(k, p). parent_of hs k = Some p}"

definition is_forest :: "(string \<times> HierarchyNode) list \<Rightarrow> bool" where
  "is_forest hs =
     (acyclic (parent_edges hs) \<and>
      (\<forall>k p. parent_of hs k = Some p \<longrightarrow> p \<in> fst ` set hs \<and> k \<in> set (children_of hs p)) \<and>
      (\<forall>p c. c \<in> set (children_of hs p) \<longrightarrow> parent_of hs c = Some p) \<and>
      (\<forall>p. distinct (children_of hs p)))"

text \<open>
  The states of the builder: every node is stored under its own id, no id is the empty
  string, and the nodes form a forest.
\<close>

definition well_keyed :: "(string \<times> HierarchyNode) list \<Rightarrow> bool" where
  "well_keyed hs = (distinct (map fst hs) \<and> (\<forall>(k, node) \<in> set hs. hn_id node = k \<and> k \<noteq> []))"

definition forest_state :: "ConceptHierarchy \<Rightarrow> bool" where
  "forest_state h = (well_keyed (hierarchy h) \<and> is_forest (hierarchy h))"

definition ancestors :: "(string \<times> HierarchyNode) list \<Rightarrow> string \<Rightarrow> string set" where
  "ancestors hs k = {m. (k, m) \<in> (parent_edges hs)\<^sup>+}"

definition links ::
  "(string \<times> HierarchyNode) list
     \<Rightarrow> (string \<Rightarrow> string option) \<times> (string \<Rightarrow> string list) \<times> string set" where
  "links hs = (parent_of hs, children_of hs, fst ` set hs)"

text \<open>A state with the single edge from \<open>a\<close> to its parent \<open>b\<close>, and its two nodes.\<close>

definition two_level :: ConceptHierarchy where
  "two_level =
     buildIsARelationships (initializeNodes [bare_concept ''a'', bare_concept ''b''])
       [is_a ''a'' ''b'']"

definition node_a :: HierarchyNode where
  "node_a = \<lparr>hn_id = ''a'', hn_name = ''a'', level = 0, children = [], parent = Some ''b'',
             hn_confidence = 11 / 20, hn_evidence = [],
             hn_properties = [''hasDefinition'', ''hasContext'', ''hasApplication'']\<rparr>"

definition node_b :: HierarchyNode where
  "node_b = \<lparr>hn_id = ''b'', hn_name = ''b'', level = 0, children = [''a''], parent = None,
             hn_confidence = 1 / 2, hn_evidence = [],
             hn_properties = [''hasDefinition'', ''hasContext'', ''hasApplication'']\<rparr>"

section \<open>Verification of the ontology store\<close>

subsection \<open>validateOntology of the store\<close>

lemma validateOntology_no_result:
  assumes "OntologyManager_validateOntology s = Some r"
  shows False
proof (rule OntologyManager_validateOntology.raw_induct [where P = "\<lambda>_ _. False", OF _ assms])
  fix validate s r
  assume IH: "\<And>x y. validate x = Some y \<Longrightarrow> False"
    and step: "(case detectCircularDependencies s of
        None \<Rightarrow> None
      | Some errs \<Rightarrow>
          let warns = detectOrphanedClasses s;
              suggs = suggestMissingRelationships s
          in Option.bind (validate s) (\<lambda>validation.
               Some \<lparr>valid = (length errs = 0), errors = errs, warnings = warns,
                     suggestions = suggs, metrics = calculateOntologyMetrics s validation\<rparr>)) = Some r"
  from step obtain v where "validate s = Some v"
    by (auto split: option.splits simp: Let_def bind_eq_Some_conv)
  then show False by (rule IH)
qed

text \<open>
  Claim C1. The claim says that \<open>validateOntology\<close> of the store terminates and returns a
  result for every store state. The code does not: computing the metrics calls
  \<open>calculateConsistencyScore\<close>, which calls \<open>validateOntology\<close> again on the same store
  before doing anything else, so no call ever returns a result, for any store, the empty
  one included.
\<close>

theorem store_validateOntology_never_returns:
  "OntologyManager_validateOntology s = None"
  using validateOntology_no_result [of s] by (cases "OntologyManager_validateOntology s") auto

subsection \<open>Class insertion and deletion\<close>

lemma map_of_updateClassHierarchy_step:
  "map_of (updateClassHierarchy_step cid cs sp) k =
     map_option (push_sub cid [sp] k) (map_of cs k)"
  by (cases "map_of cs k")
     (auto simp: updateClassHierarchy_step_def push_sub_def update_conv' split: option.splits)

lemma keys_updateClassHierarchy_step:
  "map fst (updateClassHierarchy_step cid cs sp) = map fst cs"
  by (auto simp: updateClassHierarchy_step_def update_keys split: option.splits dest: map_of_SomeD
     intro: rev_image_eqI)

lemma push_sub_Cons:
  "push_sub cid sps k (push_sub cid [sp] k d) = push_sub cid (sp # sps) k d"
  by (auto simp: push_sub_def)

lemma map_of_foldl_step:
  "map_of (foldl (updateClassHierarchy_step cid) cs sps) k =
     map_option (push_sub cid sps k) (map_of cs k)"
proof (induction sps arbitrary: cs)
  case Nil
  show ?case by (simp add: push_sub_def option.map_ident map_option.identity) 
next
  case (Cons sp sps)
  show ?case
    by (simp add: Cons.IH map_of_updateClassHierarchy_step option.map_comp comp_def push_sub_Cons)
qed

lemma keys_foldl_step:
  "map fst (foldl (updateClassHierarchy_step cid) cs sps) = map fst cs"
  by (induction sps arbitrary: cs) (simp_all add: keys_updateClassHierarchy_step)

lemma map_of_addClass:
  "map_of (classes (addClass s c)) k =
     map_option (push_sub (cls_id c) (superClasses c) k) (((map_of (classes s))(cls_id c \<mapsto> c)) k)"
  by (simp add: addClass_def updateClassHierarchy_def map_of_foldl_step update_conv')

lemma keys_addClass:
  "map fst (classes (addClass s c)) =
     (if cls_id c \<in> set (map fst (classes s)) then map fst (classes s)
      else map fst (classes s) @ [cls_id c])"
  by (simp add: addClass_def updateClassHierarchy_def keys_foldl_step update_keys)

lemma map_of_removeFromSuper:
  "map_of (removeFromSuper cid cs sp) k = map_option (rm_sub cid [sp] k) (map_of cs k)"
  by (cases "map_of cs k")
     (auto simp: removeFromSuper_def rm_sub_def update_conv' split: option.splits)

lemma map_of_removeFromSub:
  "map_of (removeFromSub cid cs sb) k = map_option (rm_super cid [sb] k) (map_of cs k)"
  by (cases "map_of cs k")
     (auto simp: removeFromSub_def rm_super_def update_conv' split: option.splits)

lemma rm_sub_Cons: "rm_sub cid sps k (rm_sub cid [sp] k d) = rm_sub cid (sp # sps) k d"
  by (auto simp: rm_sub_def)

lemma rm_super_Cons: "rm_super cid sbs k (rm_super cid [sb] k d) = rm_super cid (sb # sbs) k d"
  by (auto simp: rm_super_def)

lemma map_of_foldl_removeFromSuper:
  "map_of (foldl (removeFromSuper cid) cs sps) k = map_option (rm_sub cid sps k) (map_of cs k)"
proof (induction sps arbitrary: cs)
  case Nil
  show ?case by (simp add: rm_sub_def option.map_ident)
next
  case (Cons sp sps)
  show ?case
    by (simp add: Cons.IH map_of_removeFromSuper option.map_comp comp_def rm_sub_Cons)
qed

lemma map_of_foldl_removeFromSub:
  "map_of (foldl (removeFromSub cid) cs sbs) k = map_option (rm_super cid sbs k) (map_of cs k)"
proof (induction sbs arbitrary: cs)
  case Nil
  show ?case by (simp add: rm_super_def option.map_ident)
next
  case (Cons sb sbs)
  show ?case
    by (simp add: Cons.IH map_of_removeFromSub option.map_comp comp_def rm_super_Cons)
qed

lemma classes_removeClassRelationships [simp]:
  "classes (removeClassRelationships s i) = classes s"
  by (simp add: removeClassRelationships_def Let_def)

lemma map_of_deleteClass:
  assumes "\<And>c. map_of (classes s) i = Some c \<Longrightarrow> cls_id c = i"
  shows "map_of (classes (snd (deleteClass s i))) k =
     (case map_of (classes s) i of
        None \<Rightarrow> map_of (classes s) k
      | Some cls \<Rightarrow>
          if k = i then None
          else map_option
                 (\<lambda>d. rm_super i (if i \<in> set (superClasses cls)
                                   then filter (\<lambda>j. j \<noteq> i) (subClasses cls)
                                   else subClasses cls) k
                         (rm_sub i (superClasses cls) k d))
                 (map_of (classes s) k))"
  using assms
  by (auto simp: deleteClass_def getClass_def removeFromHierarchy_def Let_def delete_conv'
        map_of_foldl_removeFromSub map_of_foldl_removeFromSuper option.map_comp comp_def rm_sub_def
      split: option.splits)

lemma acyclic_fresh_source:
  assumes ac: "acyclic r" and fresh: "c \<notin> Field r" and E: "E \<subseteq> {c} \<times> X" and cX: "c \<notin> X"
  shows "acyclic (r \<union> E)"
proof -
  have path: "y \<noteq> c \<and> (x \<noteq> c \<longrightarrow> (x, y) \<in> r\<^sup>+)" if "(x, y) \<in> (r \<union> E)\<^sup>+" for x y
    using that
  proof (induction rule: trancl.induct)
    case (r_into_trancl a b)
    then show ?case using fresh E cX by (auto simp: Field_def)
  next
    case (trancl_into_trancl a b d)
    then have "b \<noteq> c" by simp
    with trancl_into_trancl.hyps(2) E have bd: "(b, d) \<in> r" by auto
    then have "d \<noteq> c" using fresh by (auto simp: Field_def)
    moreover have "a \<noteq> c \<longrightarrow> (a, d) \<in> r\<^sup>+"
      using trancl_into_trancl.IH bd by (auto intro: trancl.trancl_into_trancl)
    ultimately show ?case by simp
  qed
  show ?thesis
  proof (rule acyclicI, rule allI, rule notI)
    fix x assume "(x, x) \<in> (r \<union> E)\<^sup>+"
    from path [OF this] have "(x, x) \<in> r\<^sup>+" by simp
    with ac show False by (simp add: acyclic_def)
  qed
qed

lemma store_inv_addClass:
  assumes inv: "store_inv s" and da: "disciplined_add s c"
  shows "store_inv (addClass s c)"
proof -
  define m where "m = map_of (classes s)"
  define m' where "m' = map_of (classes (addClass s c))"
  define cid where "cid = cls_id c"
  have dom_m: "dom m = class_keys s"
    by (simp add: m_def class_keys_def dom_map_of_conv_image_fst)
  from da have fresh: "cid \<notin> dom m" and sps: "set (superClasses c) \<subseteq> dom m"
    and nosub: "subClasses c = []"
    by (simp_all add: disciplined_add_def dom_m cid_def)
  from inv have dist: "distinct (map fst (classes s))" and closed: "m_closed m"
    and sym: "m_sym m" and ac: "acyclic (super_edges m)"
    by (simp_all add: store_inv_def m_def)
  have cid_notin_sps: "cid \<notin> set (superClasses c)" using fresh sps by auto
  have new: "m' cid = Some c"
    using cid_notin_sps by (simp add: m'_def map_of_addClass cid_def push_sub_def)
  have noref: "cid \<notin> set (superClasses d) \<and> cid \<notin> set (subClasses d) \<and> cls_id d = k"
    if "m k = Some d" for k d
    using closed that fresh unfolding m_closed_def by blast
  have old: "m' k = map_option (\<lambda>d. if k \<in> set (superClasses c)
                                    then d\<lparr>subClasses := subClasses d @ [cid]\<rparr> else d) (m k)"
    if "k \<noteq> cid" for k
    using that noref [of k]
    by (cases "m k") (auto simp: m'_def map_of_addClass cid_def [symmetric] m_def [symmetric] push_sub_def)
  have dom_m': "dom m' = insert cid (dom m)"
  proof -
    have "dom m' = fst ` set (classes (addClass s c))"
      by (simp add: m'_def dom_map_of_conv_image_fst)
    also have "\<dots> = set (map fst (classes (addClass s c)))" by simp
    also have "\<dots> = insert cid (dom m)"
      unfolding keys_addClass by (auto simp: cid_def dom_m class_keys_def)
    finally show ?thesis .
  qed
  have dist': "distinct (map fst (classes (addClass s c)))"
    unfolding keys_addClass using dist by auto
  have closed': "m_closed m'"
    unfolding m_closed_def
  proof (intro allI impI)
    fix k d assume kd: "m' k = Some d"
    show "cls_id d = k \<and> set (superClasses d) \<subseteq> dom m' \<and> set (subClasses d) \<subseteq> dom m'"
    proof (cases "k = cid")
      case True
      with kd new have "d = c" by simp
      with True sps nosub show ?thesis by (auto simp: dom_m' cid_def)
    next
      case False
      from kd old [OF False] obtain d0 where d0: "m k = Some d0"
        and d: "d = (if k \<in> set (superClasses c) then d0\<lparr>subClasses := subClasses d0 @ [cid]\<rparr> else d0)"
        by auto
      from closed d0 have "cls_id d0 = k" "set (superClasses d0) \<subseteq> dom m" "set (subClasses d0) \<subseteq> dom m"
        unfolding m_closed_def by blast+
      then show ?thesis by (auto simp: d dom_m')
    qed
  qed
  have sym': "m_sym m'"
    unfolding m_sym_def
  proof (intro allI impI)
    fix a b ca cb assume a: "m' a = Some ca" and b: "m' b = Some cb"
    show "(b \<in> set (subClasses ca)) = (a \<in> set (superClasses cb))"
    proof (cases "a = cid")
      case True
      with a new have ca: "ca = c" by simp
      show ?thesis
      proof (cases "b = cid")
        case True
        with b new have "cb = c" by simp
        with ca nosub cid_notin_sps \<open>a = cid\<close> show ?thesis by simp
      next
        case False
        from b old [OF False] obtain d0 where "m b = Some d0"
          and "superClasses cb = superClasses d0" by (auto split: if_splits)
        with noref [of b d0] ca nosub True show ?thesis by simp
      qed
    next
      case False
      from a old [OF False] obtain a0 where a0: "m a = Some a0"
        and ca: "ca = (if a \<in> set (superClasses c) then a0\<lparr>subClasses := subClasses a0 @ [cid]\<rparr> else a0)"
        by auto
      show ?thesis
      proof (cases "b = cid")
        case True
        with b new have "cb = c" by simp
        with ca noref [OF a0] True show ?thesis by auto
      next
        case bF: False
        from b old [OF bF] obtain b0 where b0: "m b = Some b0"
          and "superClasses cb = superClasses b0" by (auto split: if_splits)
        moreover from sym a0 b0 have "(b \<in> set (subClasses a0)) = (a \<in> set (superClasses b0))"
          unfolding m_sym_def by blast
        ultimately show ?thesis using ca bF by auto
      qed
    qed
  qed
  have edges: "super_edges m' = super_edges m \<union> {cid} \<times> set (superClasses c)"
  proof -
    have "(a, b) \<in> super_edges m' \<longleftrightarrow> (a, b) \<in> super_edges m \<union> {cid} \<times> set (superClasses c)" for a b
    proof (cases "a = cid")
      case True
      then show ?thesis using new fresh by (auto simp: super_edges_def)
    next
      case False
      then show ?thesis using old [OF False] by (cases "m a") (auto simp: super_edges_def)
    qed
    then show ?thesis by auto
  qed
  have "cid \<notin> Field (super_edges m)"
    using fresh closed unfolding m_closed_def super_edges_def Field_def by auto
  then have "acyclic (super_edges m')"
    unfolding edges using ac cid_notin_sps by (intro acyclic_fresh_source [where X = "set (superClasses c)"]) auto
  with dist' closed' sym' show ?thesis
    by (simp add: store_inv_def m'_def)
qed

lemma map_of_Some_key: "map_of cs k = Some v \<Longrightarrow> k \<in> set (map fst cs)"
  by (induction cs) (auto split: if_splits)

lemma keys_removeFromSuper: "map fst (removeFromSuper cid cs sp) = map fst cs"
proof (cases "map_of cs sp")
  case None
  then show ?thesis by (simp add: removeFromSuper_def)
next
  case (Some a)
  then show ?thesis
    using map_of_Some_key [OF Some] by (simp add: removeFromSuper_def update_keys)
qed

lemma keys_removeFromSub: "map fst (removeFromSub cid cs sb) = map fst cs"
proof (cases "map_of cs sb")
  case None
  then show ?thesis by (simp add: removeFromSub_def)
next
  case (Some a)
  then show ?thesis
    using map_of_Some_key [OF Some] by (simp add: removeFromSub_def update_keys)
qed

lemma keys_foldl_removeFromSuper: "map fst (foldl (removeFromSuper cid) cs sps) = map fst cs"
  by (induction sps arbitrary: cs) (simp_all add: keys_removeFromSuper)

lemma keys_foldl_removeFromSub: "map fst (foldl (removeFromSub cid) cs sbs) = map fst cs"
  by (induction sbs arbitrary: cs) (simp_all add: keys_removeFromSub)

lemma keys_deleteClass:
  "map fst (classes (snd (deleteClass s i))) =
     (if map_of (classes s) i = None then map fst (classes s)
      else removeAll i (map fst (classes s)))"
  by (auto simp: deleteClass_def getClass_def removeFromHierarchy_def Let_def delete_keys
        keys_foldl_removeFromSub keys_foldl_removeFromSuper split: option.splits)

lemma store_inv_deleteClass:
  assumes inv: "store_inv s"
  shows "store_inv (snd (deleteClass s i))"
proof (cases "map_of (classes s) i")
  case None
  then show ?thesis using inv by (simp add: deleteClass_def getClass_def)
next
  case (Some cls)
  define m where "m = map_of (classes s)"
  define m' where "m' = map_of (classes (snd (deleteClass s i)))"
  from inv have dist: "distinct (map fst (classes s))" and closed: "m_closed m"
    and sym: "m_sym m" and ac: "acyclic (super_edges m)"
    by (simp_all add: store_inv_def m_def)
  have mi: "m i = Some cls" using Some by (simp add: m_def)
  have key_id: "cls_id d = k" if "m k = Some d" for k d
    using closed that unfolding m_closed_def by blast
  have del: "m' i = None"
    using Some key_id [of i] by (subst m'_def, subst map_of_deleteClass) (auto simp: m_def)
  have old: "\<exists>d'. m' k = Some d' \<and> cls_id d' = cls_id d
      \<and> superClasses d' = filter (\<lambda>j. j \<noteq> i) (superClasses d)
      \<and> subClasses d' = filter (\<lambda>j. j \<noteq> i) (subClasses d)"
    if ki: "k \<noteq> i" and kd: "m k = Some d" for k d
  proof -
    have s1: "(k \<in> set (subClasses cls)) = (i \<in> set (superClasses d))"
      using sym mi kd unfolding m_sym_def by blast
    have s2: "(i \<in> set (subClasses d)) = (k \<in> set (superClasses cls))"
      using sym mi kd unfolding m_sym_def by blast
    have f1: "i \<notin> set xs \<Longrightarrow> filter (\<lambda>j. j \<noteq> i) xs = xs" for xs :: "string list"
      by (induction xs) auto
    have "m' k = map_option
                 (\<lambda>d. rm_super i (if i \<in> set (superClasses cls)
                                   then filter (\<lambda>j. j \<noteq> i) (subClasses cls)
                                   else subClasses cls) k
                         (rm_sub i (superClasses cls) k d))
                 (m k)"
      using Some key_id [of i] ki
      by (subst m'_def, subst map_of_deleteClass) (auto simp: m_def)
    then show ?thesis
      using kd ki s1 s2 by (auto simp: rm_super_def rm_sub_def f1)
  qed
  have none: "m' k = None" if "m k = None" for k
    using Some key_id [of i] that
    by (subst m'_def, subst map_of_deleteClass) (auto simp: m_def)
  have dom_m': "dom m' = dom m - {i}"
  proof (rule set_eqI)
    fix k show "k \<in> dom m' \<longleftrightarrow> k \<in> dom m - {i}"
    proof (cases "k = i")
      case True then show ?thesis using del by auto
    next
      case False
      show ?thesis
      proof (cases "m k")
        case None with none [of k] show ?thesis by auto
      next
        case (Some d)
        from old [OF False Some] obtain d' where "m' k = Some d'" by blast
        with Some False show ?thesis by auto
      qed
    qed
  qed
  have orig: "\<exists>d. m k = Some d \<and> k \<noteq> i \<and> cls_id d' = cls_id d
      \<and> superClasses d' = filter (\<lambda>j. j \<noteq> i) (superClasses d)
      \<and> subClasses d' = filter (\<lambda>j. j \<noteq> i) (subClasses d)"
    if "m' k = Some d'" for k d'
  proof -
    from that del have ki: "k \<noteq> i" by auto
    from that none [of k] obtain d where d: "m k = Some d" by (cases "m k") auto
    from old [OF ki d] that d ki show ?thesis by auto
  qed
  have dist': "distinct (map fst (classes (snd (deleteClass s i))))"
    unfolding keys_deleteClass using dist by (auto simp: distinct_removeAll)
  have closed': "m_closed m'"
    unfolding m_closed_def
  proof (intro allI impI)
    fix k d' assume "m' k = Some d'"
    from orig [OF this] obtain d where d: "m k = Some d" "k \<noteq> i" "cls_id d' = cls_id d"
      "superClasses d' = filter (\<lambda>j. j \<noteq> i) (superClasses d)"
      "subClasses d' = filter (\<lambda>j. j \<noteq> i) (subClasses d)" by blast
    from closed d(1) have "cls_id d = k" "set (superClasses d) \<subseteq> dom m" "set (subClasses d) \<subseteq> dom m"
      unfolding m_closed_def by blast+
    then show "cls_id d' = k \<and> set (superClasses d') \<subseteq> dom m' \<and> set (subClasses d') \<subseteq> dom m'"
      using d by (auto simp: dom_m')
  qed
  have sym': "m_sym m'"
    unfolding m_sym_def
  proof (intro allI impI)
    fix a b ca cb assume a: "m' a = Some ca" and b: "m' b = Some cb"
    from orig [OF a] obtain a0 where a0: "m a = Some a0" "a \<noteq> i"
      "subClasses ca = filter (\<lambda>j. j \<noteq> i) (subClasses a0)" by blast
    from orig [OF b] obtain b0 where b0: "m b = Some b0" "b \<noteq> i"
      "superClasses cb = filter (\<lambda>j. j \<noteq> i) (superClasses b0)" by blast
    from sym a0(1) b0(1) have "(b \<in> set (subClasses a0)) = (a \<in> set (superClasses b0))"
      unfolding m_sym_def by blast
    then show "(b \<in> set (subClasses ca)) = (a \<in> set (superClasses cb))"
      using a0 b0 by simp
  qed
  have "super_edges m' \<subseteq> super_edges m"
  proof
    fix e assume "e \<in> super_edges m'"
    then obtain a b d' where e: "e = (a, b)" and a: "m' a = Some d'" and bm: "b \<in> set (superClasses d')"
      by (auto simp: super_edges_def)
    from orig [OF a] bm show "e \<in> super_edges m" by (auto simp: super_edges_def e)
  qed
  with ac have "acyclic (super_edges m')" by (rule acyclic_subset)
  with dist' closed' sym' show ?thesis by (simp add: store_inv_def m'_def)
qed

lemma store_inv_empty: "store_inv empty_store"
proof -
  have "super_edges (map_of []) = {}" by (simp add: super_edges_def)
  moreover have "acyclic ({} :: (string \<times> string) set)" by (simp add: acyclic_def)
  ultimately show ?thesis
    by (simp add: store_inv_def empty_store_def m_closed_def m_sym_def)
qed

lemma classes_addProperty [simp]: "classes (addProperty s p) = classes s"
  by (simp add: addProperty_def)

lemma classes_addRelationship [simp]: "classes (addRelationship s r) = classes s"
  by (simp add: addRelationship_def createBidirectionalRelationship_def Let_def)

lemma classes_addDomain [simp]: "classes (addDomain s d) = classes s"
  by (simp add: addDomain_def)

lemma disciplined_store_inv: "disciplined s \<Longrightarrow> store_inv s"
proof (induction rule: disciplined.induct)
  case d_empty
  show ?case by (rule store_inv_empty)
next
  case (d_addClass s c)
  then show ?case by (simp add: store_inv_addClass)
next
  case (d_deleteClass s i)
  then show ?case by (simp add: store_inv_deleteClass)
qed (simp_all add: store_inv_def)

lemma store_inv_symmetry:
  assumes "store_inv s" shows "referential_symmetry s"
proof -
  from assms have dist: "distinct (map fst (classes s))" and sym: "m_sym (map_of (classes s))"
    by (simp_all add: store_inv_def)
  have "(b \<in> set (subClasses ca)) = (a \<in> set (superClasses cb))"
    if "(a, ca) \<in> set (classes s)" and "(b, cb) \<in> set (classes s)" for a ca b cb
  proof -
    from that dist have "map_of (classes s) a = Some ca" "map_of (classes s) b = Some cb"
      by (simp_all add: map_of_is_SomeI)
    with sym show ?thesis unfolding m_sym_def by blast
  qed
  then show ?thesis unfolding referential_symmetry_def by blast
qed

lemma store_inv_acyclic:
  assumes "store_inv s" shows "acyclic (hierarchy_edges s)"
proof -
  define m where "m = map_of (classes s)"
  from assms have dist: "distinct (map fst (classes s))" and closed: "m_closed m"
    and sym: "m_sym m" and ac: "acyclic (super_edges m)"
    by (simp_all add: store_inv_def m_def)
  have look: "m k = Some c" if "(k, c) \<in> set (classes s)" for k c
    using that dist by (simp add: m_def map_of_is_SomeI)
  have "hierarchy_edges s \<subseteq> super_edges m"
  proof
    fix e assume "e \<in> hierarchy_edges s"
    then consider (sp) a b c where "e = (a, b)" "(a, c) \<in> set (classes s)" "b \<in> set (superClasses c)"
      | (sb) a b c where "e = (a, b)" "(b, c) \<in> set (classes s)" "a \<in> set (subClasses c)"
      unfolding hierarchy_edges_def by blast
    then show "e \<in> super_edges m"
    proof cases
      case sp
      from look [OF sp(2)] sp(1,3) show ?thesis unfolding super_edges_def by blast
    next
      case sb
      have mb: "m b = Some c" by (rule look [OF sb(2)])
      from closed mb sb(3) have "a \<in> dom m" unfolding m_closed_def by blast
      then obtain ca where ca: "m a = Some ca" by blast
      from sym ca mb have "(b \<in> set (subClasses ca)) = (a \<in> set (superClasses c))"
        unfolding m_sym_def by blast
      from sym mb ca have "(a \<in> set (subClasses c)) = (b \<in> set (superClasses ca))"
        unfolding m_sym_def by blast
      with sb ca show ?thesis unfolding super_edges_def by blast
    qed
  qed
  with ac show ?thesis by (rule acyclic_subset)
qed

lemma addClass_super_edge:
  assumes "sp \<in> set (superClasses c)"
  shows "(cls_id c, sp) \<in> hierarchy_edges (addClass s c)"
proof -
  have "map_of (classes (addClass s c)) (cls_id c)
          = Some (push_sub (cls_id c) (superClasses c) (cls_id c) c)"
    by (simp add: map_of_addClass)
  then have "(cls_id c, push_sub (cls_id c) (superClasses c) (cls_id c) c) \<in> set (classes (addClass s c))"
    by (rule map_of_SomeD)
  moreover have "superClasses (push_sub (cls_id c) (superClasses c) (cls_id c) c) = superClasses c"
    by (simp add: push_sub_def)
  ultimately show ?thesis using assms unfolding hierarchy_edges_def by force
qed

text \<open>
  Claim C2, amended. \<open>addClass\<close> performs no cycle check and rejects nothing: every
  super-class link of the inserted class is an edge of the resulting hierarchy graph,
  whatever the store held before. The graph is acyclic in every store built from the empty
  store by disciplined operations (insertions under a fresh id, without sub-classes, whose
  super-classes are already present; deletions; property, relationship and domain
  insertions).
\<close>

theorem addClass_unguarded_acyclic_if_disciplined:
  "(\<forall>sp \<in> set (superClasses c). (cls_id c, sp) \<in> hierarchy_edges (addClass s c)) \<and>
   (disciplined t \<longrightarrow> acyclic (hierarchy_edges t))"
  using addClass_super_edge disciplined_store_inv store_inv_acyclic by blast

lemma disciplined_two:
  "disciplined (addClass (addClass empty_store (plain_class ''A'' [] [])) (plain_class ''B'' [''A''] []))"
proof -
  have 1: "disciplined (addClass empty_store (plain_class ''A'' [] []))"
    by (rule d_addClass [OF d_empty])
       (simp add: disciplined_add_def class_keys_def empty_store_def plain_class_def)
  show ?thesis
    by (rule d_addClass [OF 1])
       (simp add: disciplined_add_def class_keys_def empty_store_def plain_class_def
          addClass_def updateClassHierarchy_def)
qed

theorem addClass_unguarded_acyclic_if_disciplined_witness:
  "(''B'', ''A'')
     \<in> hierarchy_edges (addClass (addClass empty_store (plain_class ''A'' [] []))
                          (plain_class ''B'' [''A''] [])) \<and>
   disciplined (addClass (addClass empty_store (plain_class ''A'' [] [])) (plain_class ''B'' [''A''] [])) \<and>
   acyclic (hierarchy_edges
     (addClass (addClass empty_store (plain_class ''A'' [] [])) (plain_class ''B'' [''A''] [])))"
  using addClass_unguarded_acyclic_if_disciplined
          [of "plain_class ''B'' [''A''] []" "addClass empty_store (plain_class ''A'' [] [])"
              "addClass (addClass empty_store (plain_class ''A'' [] [])) (plain_class ''B'' [''A''] [])"]
        disciplined_two
  by (simp add: plain_class_def)

text \<open>
  The claim as stated fails: inserting \<open>A\<close> with super-class \<open>B\<close> and then \<open>B\<close> with
  super-class \<open>A\<close> is accepted, changes the store and leaves the cycle \<open>A \<rightarrow> B \<rightarrow> A\<close>.
\<close>

theorem acyclicity_counterexample:
  "\<not> acyclic (hierarchy_edges
       (addClass (addClass empty_store (plain_class ''A'' [''B''] [])) (plain_class ''B'' [''A''] [])))
   \<and> addClass (addClass empty_store (plain_class ''A'' [''B''] [])) (plain_class ''B'' [''A''] [])
       \<noteq> addClass empty_store (plain_class ''A'' [''B''] [])"
proof -
  let ?s1 = "addClass empty_store (plain_class ''A'' [''B''] [])"
  let ?s2 = "addClass ?s1 (plain_class ''B'' [''A''] [])"
  have cs: "classes ?s2 = [(''A'', plain_class ''A'' [''B''] [''B'']), (''B'', plain_class ''B'' [''A''] [])]"
    by (simp add: addClass_def updateClassHierarchy_def updateClassHierarchy_step_def
          empty_store_def plain_class_def)
  have "(''A'', ''B'') \<in> hierarchy_edges ?s2" "(''B'', ''A'') \<in> hierarchy_edges ?s2"
    unfolding hierarchy_edges_def cs by (auto simp: plain_class_def)
  then have "(''A'', ''A'') \<in> (hierarchy_edges ?s2)\<^sup>+" by (rule trancl_trans [OF r_into_trancl r_into_trancl])
  then have "\<not> acyclic (hierarchy_edges ?s2)" unfolding acyclic_def by blast
  moreover have "classes ?s1 = [(''A'', plain_class ''A'' [''B''] [])]"
    by (simp add: addClass_def updateClassHierarchy_def updateClassHierarchy_step_def
          empty_store_def plain_class_def)
  with cs have "?s2 \<noteq> ?s1" by auto
  ultimately show ?thesis by blast
qed

text \<open>
  Claim C3, amended. In every store built from the empty store by disciplined operations,
  for all classes \<open>A\<close> and \<open>B\<close> present: \<open>B\<close> is listed in \<open>A.subClasses\<close> if and only if \<open>A\<close>
  is listed in \<open>B.superClasses\<close>.
\<close>

theorem symmetry_if_disciplined: "disciplined s \<Longrightarrow> referential_symmetry s"
  by (rule store_inv_symmetry [OF disciplined_store_inv])

theorem symmetry_if_disciplined_witness:
  "disciplined (addClass (addClass empty_store (plain_class ''A'' [] [])) (plain_class ''B'' [''A''] [])) \<and>
   referential_symmetry
     (addClass (addClass empty_store (plain_class ''A'' [] [])) (plain_class ''B'' [''A''] []))"
  using symmetry_if_disciplined [OF disciplined_two] disciplined_two by simp

text \<open>
  The claim as stated fails: when \<open>A\<close> is inserted with super-class \<open>B\<close> before \<open>B\<close>
  exists, and \<open>B\<close> is inserted afterwards, \<open>B\<close> is in \<open>A.superClasses\<close> but \<open>A\<close> is not in
  \<open>B.subClasses\<close>.
\<close>

theorem symmetry_counterexample:
  "\<not> referential_symmetry
       (addClass (addClass empty_store (plain_class ''A'' [''B''] [])) (plain_class ''B'' [] []))"
  by (simp add: referential_symmetry_def addClass_def updateClassHierarchy_def
        updateClassHierarchy_step_def empty_store_def plain_class_def)

subsection \<open>Relationship insertion\<close>

text \<open>
  Claim C10, amended. \<open>addRelationship(r)\<close> always stores \<open>r\<close> under its id. When \<open>r\<close> is
  bidirectional, its own id is not the mirror id \<open>target-type-source\<close> and the store held
  nothing under the mirror id, the mirror of \<open>r\<close> (source and target swapped) is stored
  under the mirror id. When \<open>r\<close> is bidirectional, its own id is not the mirror id and the
  mirror id is already in use, the entry under the mirror id is kept as it was. When \<open>r\<close>
  is not bidirectional, or its own id is the mirror id, or the mirror id is in use, nothing
  but \<open>r\<close> is inserted (so an \<open>r\<close> whose own id is the mirror id replaces the entry
  under that id).
\<close>

theorem addRelationship_mirror:
  "getRelationship (addRelationship s r) (rel_id r) = Some r \<and>
   (bidirectional r \<and> rel_id r \<noteq> reverseId r \<and> getRelationship s (reverseId r) = None \<longrightarrow>
      getRelationship (addRelationship s r) (reverseId r) = Some (mirror_of r)) \<and>
   (bidirectional r \<and> rel_id r \<noteq> reverseId r \<and> getRelationship s (reverseId r) \<noteq> None \<longrightarrow>
      getRelationship (addRelationship s r) (reverseId r) = getRelationship s (reverseId r)) \<and>
   (\<not> bidirectional r \<or> rel_id r = reverseId r \<or> getRelationship s (reverseId r) \<noteq> None \<longrightarrow>
      relationships (addRelationship s r) = AList.update (rel_id r) r (relationships s))"
  by (auto simp: getRelationship_def addRelationship_def createBidirectionalRelationship_def
        mirror_of_def update_conv' Let_def)

theorem addRelationship_mirror_witness:
  "getRelationship (addRelationship empty_store (plain_relationship ''r1'' ''rel'' ''a'' ''b'' True)) ''r1''
     = Some (plain_relationship ''r1'' ''rel'' ''a'' ''b'' True) \<and>
   getRelationship (addRelationship empty_store (plain_relationship ''r1'' ''rel'' ''a'' ''b'' True))
       ''b-rel-a''
     = Some (plain_relationship ''b-rel-a'' ''rel'' ''b'' ''a'' True) \<and>
   getRelationship
       (addRelationship (addRelationship empty_store (plain_relationship ''b-rel-a'' ''rel'' ''x'' ''y'' False))
          (plain_relationship ''r1'' ''rel'' ''a'' ''b'' True)) ''b-rel-a''
     = Some (plain_relationship ''b-rel-a'' ''rel'' ''x'' ''y'' False) \<and>
   relationships (addRelationship empty_store (plain_relationship ''r2'' ''rel'' ''a'' ''b'' False))
     = [(''r2'', plain_relationship ''r2'' ''rel'' ''a'' ''b'' False)]"
  using addRelationship_mirror [of empty_store "plain_relationship ''r1'' ''rel'' ''a'' ''b'' True"]
        addRelationship_mirror
          [of "addRelationship empty_store (plain_relationship ''b-rel-a'' ''rel'' ''x'' ''y'' False)"
              "plain_relationship ''r1'' ''rel'' ''a'' ''b'' True"]
        addRelationship_mirror [of empty_store "plain_relationship ''r2'' ''rel'' ''a'' ''b'' False"]
  by (simp add: getRelationship_def reverseId_def plain_relationship_def empty_store_def
        mirror_of_def addRelationship_def)

text \<open>
  The claim as stated fails: a bidirectional relationship from \<open>a\<close> to \<open>b\<close> whose own id
  is \<open>b-rel-a\<close> is inserted into the empty store; the entry under the mirror id is then the
  relationship itself, with source \<open>a\<close>, not its target \<open>b\<close>.
\<close>

theorem addRelationship_mirror_counterexample:
  "map_option rel_source
     (getRelationship (addRelationship empty_store (plain_relationship ''b-rel-a'' ''rel'' ''a'' ''b'' True))
        (reverseId (plain_relationship ''b-rel-a'' ''rel'' ''a'' ''b'' True)))
   = Some ''a'' \<and>
   rel_target (plain_relationship ''b-rel-a'' ''rel'' ''a'' ''b'' True) = ''b''"
  by (simp add: getRelationship_def addRelationship_def createBidirectionalRelationship_def
        reverseId_def plain_relationship_def empty_store_def)

section \<open>Verification of the validator\<close>

lemma run_rules_concat:
  "run_rules rules ctx es ws ss =
     (es @ concat (map (rule_error_entries ctx) rules),
      ws @ concat (map (rule_warning_entries ctx) rules),
      ss @ concat (map (rule_suggestion_entries ctx) rules))"
proof (induction rules arbitrary: es ws ss)
  case Nil
  show ?case by simp
next
  case (Cons rule rules)
  show ?case
    by (cases "validator rule ctx")
       (simp_all add: Cons.IH rule_error_entries_def rule_warning_entries_def
          rule_suggestion_entries_def)
qed

lemma validateOntology_fields:
  "errors (OntologyValidator_validateOntology rules cs ps rs)
     = concat (map (rule_error_entries (make_context cs ps rs)) rules)"
  "warnings (OntologyValidator_validateOntology rules cs ps rs)
     = concat (map (rule_warning_entries (make_context cs ps rs)) rules)"
  "suggestions (OntologyValidator_validateOntology rules cs ps rs)
     = concat (map (rule_suggestion_entries (make_context cs ps rs)) rules)"
  "metrics (OntologyValidator_validateOntology rules cs ps rs)
     = calculateValidationMetrics (make_context cs ps rs)
         (errors (OntologyValidator_validateOntology rules cs ps rs))
         (warnings (OntologyValidator_validateOntology rules cs ps rs))"
  "valid (OntologyValidator_validateOntology rules cs ps rs)
     = (filter (\<lambda>e. err_severity e = Critical)
          (errors (OntologyValidator_validateOntology rules cs ps rs)) = [])"
  by (simp_all add: OntologyValidator_validateOntology_def Let_def run_rules_concat)

text \<open>
  Claim C7. For every input and every list of registered rules, the report of
  \<open>validateOntology\<close> is the concatenation, in rule order, of what each rule contributes on
  its own: a rule that returns contributes its errors, warnings and suggestions; a rule
  that throws contributes exactly one error of critical severity whose message names the
  rule, and nothing else. So every rule of the list runs whatever the others do, and the
  report always carries the merged errors, warnings, suggestions and the metrics.
\<close>

theorem rule_failures_isolated:
  assumes "ctx = make_context cs ps rs"
    and "report = OntologyValidator_validateOntology rules cs ps rs"
  shows "errors report = concat (map (rule_error_entries ctx) rules) \<and>
         warnings report = concat (map (rule_warning_entries ctx) rules) \<and>
         suggestions report = concat (map (rule_suggestion_entries ctx) rules) \<and>
         metrics report = calculateValidationMetrics ctx (errors report) (warnings report) \<and>
         (\<forall>rule \<in> set rules. \<forall>error. validator rule ctx = Inl error \<longrightarrow>
            rule_error_entries ctx rule = [rule_failed_error rule error] \<and>
            rule_warning_entries ctx rule = [] \<and> rule_suggestion_entries ctx rule = [] \<and>
            err_severity (rule_failed_error rule error) = Critical \<and>
            rule_failed_error rule error \<in> set (errors report) \<and>
            str_includes (err_message (rule_failed_error rule error)) (rule_name rule))"
proof -
  have pre: "str_includes (b @ c) b" for b c :: string
  proof (cases "b @ c")
    case Nil
    then show ?thesis by simp
  next
    case (Cons x xs)
    have "startsWith (b @ c) b" by (simp add: startsWith_def)
    then show ?thesis unfolding Cons by simp
  qed
  have inc: "str_includes (a @ b @ c) b" for a b c :: string
    by (induction a) (simp_all add: pre)
  have msg: "str_includes (err_message (rule_failed_error rule error)) (rule_name rule)" for rule error
    unfolding rule_failed_error_def
    using inc [of "''Validation rule '' @ [CHR 0x27]" "rule_name rule" "[CHR 0x27] @ '' failed: '' @ error"]
    by simp
  show ?thesis
    unfolding assms
    by (auto simp: validateOntology_fields rule_error_entries_def rule_warning_entries_def
          rule_suggestion_entries_def msg rule_failed_error_def [THEN arg_cong, of err_severity]
        intro!: bexI [where x = rule for rule])
qed

lemma ratio_unit:
  assumes "a \<le> b"
  shows "in_unit_interval (js_div (of_nat a) (of_nat (max b 1)))"
proof -
  have "(of_nat a :: rat) \<le> of_nat (max b 1)" using assms by (simp add: max_def)
  moreover have "(0 :: rat) < of_nat (max b 1)" by (simp add: max_def)
  ultimately show ?thesis by (simp add: in_unit_interval_def js_div_def)
qed

lemma calculateCompleteness_unit: "in_unit_interval (calculateCompleteness ctx)"
  unfolding calculateCompleteness_def
  by (rule ratio_unit) (simp add: order_trans [OF length_filter_le])

lemma calculateClarity_unit: "in_unit_interval (calculateClarity ctx)"
  unfolding calculateClarity_def Let_def
  by (rule ratio_unit) (simp add: add_mono order_trans [OF length_filter_le])

lemma calculateCoverage_unit: "in_unit_interval (calculateCoverage ctx)"
proof -
  define d :: rat where
    "d = max (of_nat (length (ctx_classes ctx)) * (of_nat (length (ctx_classes ctx)) - 1) / 10) 1"
  have "0 < d" by (simp add: d_def)
  then have "0 \<le> of_nat (length (ctx_relationships ctx)) / d" by simp
  with \<open>0 < d\<close> show ?thesis
    by (simp add: calculateCoverage_def Let_def in_unit_interval_def js_div_def d_def [symmetric])
qed

lemma consistency_unit:
  "in_unit_interval (consistency (calculateValidationMetrics ctx errs warns))"
  by (simp add: calculateValidationMetrics_def in_unit_interval_def)

text \<open>
  Claim C9. For every input to \<open>validateOntology\<close>, the empty one included, each of the
  four metrics is a proper number (no division by zero occurred) between 0 and 1.
\<close>

theorem validator_metrics_bounds:
  "in_unit_interval (consistency (metrics (OntologyValidator_validateOntology rules cs ps rs))) \<and>
   in_unit_interval (completeness (metrics (OntologyValidator_validateOntology rules cs ps rs))) \<and>
   in_unit_interval (clarity (metrics (OntologyValidator_validateOntology rules cs ps rs))) \<and>
   in_unit_interval (coverage (metrics (OntologyValidator_validateOntology rules cs ps rs)))"
  by (simp add: validateOntology_fields(4) consistency_unit)
     (simp add: calculateValidationMetrics_def calculateCompleteness_unit calculateClarity_unit
        calculateCoverage_unit)

text \<open>
  Claim C8. The result of \<open>validateOntology\<close> has \<open>valid = true\<close> exactly when none of the
  collected errors has critical severity, and its metrics are those computed from the
  context and the collected errors and warnings, whatever \<open>valid\<close> is.
\<close>

theorem valid_iff_no_critical_error:
  "valid (OntologyValidator_validateOntology rules cs ps rs)
     = (\<forall>e \<in> set (errors (OntologyValidator_validateOntology rules cs ps rs)).
          err_severity e \<noteq> Critical) \<and>
   metrics (OntologyValidator_validateOntology rules cs ps rs)
     = calculateValidationMetrics (make_context cs ps rs)
         (errors (OntologyValidator_validateOntology rules cs ps rs))
         (warnings (OntologyValidator_validateOntology rules cs ps rs))"
  by (simp add: validateOntology_fields(4,5) filter_empty_conv)

theorem rule_failures_isolated_witness:
  "rule_failed_error failing_rule ''Error: boom''
     \<in> set (errors (OntologyValidator_validateOntology
                      (addCustomValidationRule validationRules failing_rule) cyclic_classes [] [])) \<and>
   err_severity (rule_failed_error failing_rule ''Error: boom'') = Critical \<and>
   str_includes (err_message (rule_failed_error failing_rule ''Error: boom''))
     (rule_name failing_rule) \<and>
   length (errors (OntologyValidator_validateOntology
                     (addCustomValidationRule validationRules failing_rule) cyclic_classes [] [])) = 2"
proof -
  let ?rules = "addCustomValidationRule validationRules failing_rule"
  let ?ctx = "make_context cyclic_classes [] []"
  have mem: "failing_rule \<in> set ?rules" by (simp add: addCustomValidationRule_def)
  have thr: "validator failing_rule ?ctx = Inl ''Error: boom''" by (simp add: failing_rule_def)
  have len: "length (errors (OntologyValidator_validateOntology ?rules cyclic_classes [] [])) = 2"
    by code_simp
  from rule_failures_isolated
         [where cs = cyclic_classes and ps = "[]" and rs = "[]" and rules = ?rules, OF refl refl]
       mem thr len
  show ?thesis by blast
qed

theorem valid_iff_no_critical_error_witness:
  "\<not> valid (OntologyValidator_validateOntology validationRules cyclic_classes [] []) \<and>
   consistency (metrics (OntologyValidator_validateOntology validationRules cyclic_classes [] []))
     = Some (9 / 10) \<and>
   valid (OntologyValidator_validateOntology validationRules [] [] []) \<and>
   consistency (metrics (OntologyValidator_validateOntology validationRules [] [] [])) = Some 1"
proof -
  have e1: "map err_severity (errors (OntologyValidator_validateOntology validationRules cyclic_classes [] []))
              = [Critical]"
    by code_simp
  have w1: "length (warnings (OntologyValidator_validateOntology validationRules cyclic_classes [] [])) = 0"
    by code_simp
  have e0: "errors (OntologyValidator_validateOntology validationRules [] [] []) = []"
    by code_simp
  have w0: "warnings (OntologyValidator_validateOntology validationRules [] [] []) = []"
    by code_simp
  from e1 have l1: "length (errors (OntologyValidator_validateOntology validationRules cyclic_classes [] [])) = 1"
    by (metis length_map list.size(3,4) One_nat_def add.left_neutral)
  from e1 obtain e where "e \<in> set (errors (OntologyValidator_validateOntology validationRules cyclic_classes [] []))"
    "err_severity e = Critical"
    by (metis list.set_intros(1) list.simps(9) map_eq_Cons_D)
  with valid_iff_no_critical_error [of validationRules cyclic_classes "[]" "[]"]
       valid_iff_no_critical_error [of validationRules "[]" "[]" "[]"] e0 w0 w1 l1
  show ?thesis
    by (auto simp: calculateValidationMetrics_def)
qed

theorem validator_metrics_bounds_witness:
  "metrics (OntologyValidator_validateOntology validationRules [] [] [])
     = \<lparr>consistency = Some 1, completeness = Some 0, clarity = Some 0, coverage = Some 0\<rparr> \<and>
   in_unit_interval (Some 1) \<and> in_unit_interval (Some 0)"
proof -
  have "metrics (OntologyValidator_validateOntology validationRules [] [] [])
     = \<lparr>consistency = Some 1, completeness = Some 0, clarity = Some 0, coverage = Some 0\<rparr>"
    by code_simp
  with validator_metrics_bounds [of validationRules "[]" "[]" "[]"] show ?thesis by simp
qed


subsection \<open>The depth bound of the cycle search is never reached\<close>

text \<open>
  The recursion of \<open>detectCycle\<close> descends only into classes that are not yet visited, and
  every class on the current path is visited, is a key of the class map and occurs once. So
  the path is never longer than the class map, and the bound \<open>Suc (length cs)\<close> that
  \<open>detectCircularDependencies\<close> starts with is never used up: the search always returns,
  and the rule \<open>circular_dependencies\<close> never throws.
\<close>

lemma distinct_keys_length:
  assumes "distinct path" and "set path \<subseteq> set (map fst cs)"
  shows "length path \<le> length cs"
proof -
  have "length path = card (set path)" using assms(1) by (simp add: distinct_card)
  also have "\<dots> \<le> card (set (map fst cs))" using assms(2) by (intro card_mono) simp_all
  also have "\<dots> \<le> length (map fst cs)" by (rule card_length)
  finally show ?thesis by simp
qed

lemma set_add_superset: "set xs \<subseteq> set (set_add xs x)"
  and set_add_member: "x \<in> set (set_add xs x)"
  by (auto simp: set_add_def)

lemma detectCycle_returns:
  "distinct path \<Longrightarrow> set path \<subseteq> set (map fst cs) \<Longrightarrow> set path \<subseteq> set visited \<Longrightarrow>
   classId \<notin> set visited \<Longrightarrow> length cs < depth + length path \<Longrightarrow>
   \<exists>cycle visited1 stack1. detectCycle depth cs classId visited stack path = Some (cycle, visited1, stack1)
      \<and> set visited \<subseteq> set visited1"
  and detectCycle_supers_returns:
  "distinct path \<Longrightarrow> set path \<subseteq> set (map fst cs) \<Longrightarrow> set path \<subseteq> set visited \<Longrightarrow>
   length cs < depth + length path \<Longrightarrow>
   \<exists>cycle visited1 stack1.
      detectCycle_supers depth cs classId supers visited stack path = Some (cycle, visited1, stack1)
      \<and> set visited \<subseteq> set visited1"
proof (induction depth cs classId visited stack path and depth cs classId supers visited stack path
       rule: detectCycle_detectCycle_supers.induct)
  case (1 cs classId visited stack path)
  from distinct_keys_length [OF 1(1,2)] 1(5) show ?case by simp
next
  case (2 depth cs classId visited stack path)
  show ?case
  proof (cases "map_of cs classId")
    case None
    then show ?thesis using set_add_superset [of visited classId] by simp
  next
    case (Some cls)
    have key: "classId \<in> set (map fst cs)" using map_of_SomeD [OF Some] by force
    from 2(5) have notin: "classId \<notin> set path" using 2(4) by auto
    have "\<exists>cycle visited1 stack1.
            detectCycle_supers depth cs classId (superClasses cls) (set_add visited classId)
              (set_add stack classId) (path @ [classId]) = Some (cycle, visited1, stack1)
            \<and> set (set_add visited classId) \<subseteq> set visited1"
    proof (rule 2(1) [OF refl refl refl Some])
      show "distinct (path @ [classId])" using 2(2) notin by simp
      show "set (path @ [classId]) \<subseteq> set (map fst cs)" using 2(3) key by simp
      show "set (path @ [classId]) \<subseteq> set (set_add visited classId)"
        using 2(4) set_add_superset [of visited classId] set_add_member [of classId visited] by auto
      show "length cs < depth + length (path @ [classId])" using 2(6) by simp
    qed
    then show ?thesis
      using Some set_add_superset [of visited classId] by (auto simp: Let_def)
  qed
next
  case (3 depth cs classId visited stack path)
  show ?case by simp
next
  case (4 depth cs classId superClassId rest visited stack path)
  show ?case
  proof (cases "superClassId \<in> set visited")
    case True
    show ?thesis
    proof (cases "superClassId \<in> set stack")
      case True
      with \<open>superClassId \<in> set visited\<close> show ?thesis by simp
    next
      case False
      from 4(3) [OF _ False 4(4,5,6,7)] True False show ?thesis by simp
    qed
  next
    case False
    from 4(1) [OF False 4(4,5,6) False 4(7)]
    obtain cycle v1 s1 where r: "detectCycle depth cs superClassId visited stack path = Some (cycle, v1, s1)"
      and sub: "set visited \<subseteq> set v1" by blast
    show ?thesis
    proof (cases "cycle = []")
      case True
      have nn: "\<not> cycle \<noteq> []" using True by simp
      have "set path \<subseteq> set v1" using 4(6) sub by blast
      from 4(2) [OF False r refl refl nn 4(4,5) this 4(7)] r True False sub
      show ?thesis by auto
    next
      case cyc: False
      with r False sub show ?thesis by simp
    qed
  qed
qed

lemma detectCircular_loop_returns:
  "\<exists>errs'. detectCircular_loop cs ids visited stack errs = Some errs'"
proof (induction ids arbitrary: visited stack errs)
  case Nil
  show ?case by simp
next
  case (Cons classId ids)
  show ?case
  proof (cases "classId \<in> set visited")
    case True
    with Cons show ?thesis by simp
  next
    case False
    from detectCycle_returns [of "[]" cs visited classId "Suc (length cs)" stack] False
    obtain cycle v1 s1 where
      "detectCycle (Suc (length cs)) cs classId visited stack [] = Some (cycle, v1, s1)" by auto
    with False Cons [of v1 s1] show ?thesis by simp
  qed
qed

lemma validateCircularDependencies_returns:
  "\<exists>result. validateCircularDependencies ctx = Inr result"
  using detectCircular_loop_returns [of "ctx_classes ctx" "map fst (ctx_classes ctx)" "[]" "[]" "[]"]
  by (auto simp: validateCircularDependencies_def)

lemma detectCircularDependencies_returns:
  "\<exists>errs. detectCircularDependencies s = Some errs"
  unfolding detectCircularDependencies_def by (rule detectCircular_loop_returns)

lemma builtin_rules_return:
  "rule \<in> set validationRules \<Longrightarrow> \<exists>result. validator rule ctx = Inr result"
  using validateCircularDependencies_returns [of ctx]
  by (auto simp: validationRules_def validateSuperclassReferences_def
        validatePropertyConstraints_def validateRelationshipConsistency_def
        validateOrphanedClasses_def validateNamingConventions_def validateHierarchyStructure_def
        validateConstraints_def Let_def)

text \<open>
  The four numbers that \<open>calculateOntologyMetrics\<close> of the store computes from a validation
  result are defined and lie in the unit interval, whatever that result is.
\<close>

lemma store_metrics_bounds:
  "in_unit_interval (consistency (calculateOntologyMetrics s validation)) \<and>
   in_unit_interval (completeness (calculateOntologyMetrics s validation)) \<and>
   in_unit_interval (clarity (calculateOntologyMetrics s validation)) \<and>
   in_unit_interval (coverage (calculateOntologyMetrics s validation))"
proof -
  have pos: "(0 :: rat) < of_nat (max (length (classes s)) 1)"
    by (cases "classes s") (simp_all add: max_def)
  have c: "in_unit_interval (consistency (calculateOntologyMetrics s validation))"
    using pos
    by (simp add: calculateOntologyMetrics_def calculateConsistencyScore_def Let_def js_div_def
          in_unit_interval_def)
  have m: "in_unit_interval (completeness (calculateOntologyMetrics s validation))"
    unfolding calculateOntologyMetrics_def Let_def
    using ratio_unit [of "length (filter (\<lambda>cls. instances cls \<noteq> []) (map snd (classes s)))"
                         "length (classes s)"]
    by (simp add: order_trans [OF length_filter_le])
  have l: "in_unit_interval (clarity (calculateOntologyMetrics s validation))"
    unfolding calculateOntologyMetrics_def Let_def calculateClarityScore_def
    using ratio_unit [of "length (filter (\<lambda>cls. description_or_empty (cls_description cls) \<noteq> [])
                                    (map snd (classes s)))" "length (classes s)"]
    by (simp add: order_trans [OF length_filter_le])
  have v: "in_unit_interval (coverage (calculateOntologyMetrics s validation))"
    by (simp add: calculateOntologyMetrics_def calculateCoverageScore_def in_unit_interval_def)
  from c m l v show ?thesis by blast
qed

section \<open>Verification of relationship consolidation\<close>

lemma rel_matches_update [simp]:
  "rel_matches a b (r\<lparr>strength := x, evidence := y\<rparr>) = rel_matches a b r"
  by (simp add: rel_matches_def)

lemma filter_strengthen_other:
  assumes "\<And>r. P r \<Longrightarrow> \<not> rel_matches a b r"
  shows "filter (rel_matches a b) (strengthen_first P ev rs) = filter (rel_matches a b) rs"
  using assms by (induction rs) auto

lemma filter_strengthen_same:
  assumes "filter (rel_matches a b) rs = [r]"
  shows "filter (rel_matches a b) (strengthen_first (rel_matches a b) ev rs)
           = [r\<lparr>strength := double_add (strength r) js_0_1, evidence := evidence r @ [ev]\<rparr>]"
  using assms
proof (induction rs)
  case Nil
  then show ?case by simp
next
  case (Cons x rs)
  then show ?case by (cases "rel_matches a b x") auto
qed

lemma find_filter: "(find P xs \<noteq> None) = (filter P xs \<noteq> [])"
  by (induction xs) auto

lemma same_pair_matches:
  "same_pair a b (c, d) \<Longrightarrow> rel_matches c d = rel_matches a b"
  by (auto simp: same_pair_def rel_matches_def fun_eq_iff)

lemma other_pair_matches:
  "\<not> same_pair a b (c, d) \<Longrightarrow> rel_matches c d r \<Longrightarrow> \<not> rel_matches a b r"
  by (auto simp: same_pair_def rel_matches_def)

lemma consolidated_observe_pair:
  assumes "consolidated rels a b k"
  shows "consolidated (observe_pair s t rels (c, d)) a b
           (k + (if same_pair a b (c, d) then 1 else 0))"
proof (cases "same_pair a b (c, d)")
  case True
  note eq = same_pair_matches [OF True]
  show ?thesis
  proof (cases "k = 0")
    case k0: True
    with assms have nil: "filter (rel_matches a b) rels = []" by (simp add: consolidated_def)
    have nf: "find (rel_matches a b) rels = None"
      using find_filter [of "rel_matches a b" rels] nil by simp
    have new: "rel_matches a b \<lparr>er_source = c, er_target = d, er_type = t, strength = js_0_3,
                 evidence = [take 100 s],
                 er_confidence = calculateRelationshipConfidence s c d\<rparr>"
      using True by (auto simp: rel_matches_def same_pair_def)
    have "observe_pair s t rels (c, d) = rels @
               [\<lparr>er_source = c, er_target = d, er_type = t, strength = js_0_3,
                 evidence = [take 100 s],
                 er_confidence = calculateRelationshipConfidence s c d\<rparr>]"
      by (simp add: observe_pair_def eq nf)
    then show ?thesis
      using True k0 nil new by (simp add: consolidated_def)
  next
    case False
    with assms obtain r where r: "filter (rel_matches a b) rels = [r]"
      "strength r = accumulated_strength (k - 1)" "length (evidence r) = k"
      by (auto simp: consolidated_def)
    let ?r' = "r\<lparr>strength := double_add (strength r) js_0_1,
                  evidence := evidence r @ [take 100 s]\<rparr>"
    have nn: "find (rel_matches a b) rels \<noteq> None"
      using find_filter [of "rel_matches a b" rels] r(1) by simp
    have obs: "observe_pair s t rels (c, d) = strengthen_first (rel_matches a b) (take 100 s) rels"
      by (simp add: observe_pair_def eq nn)
    have flt: "filter (rel_matches a b) (observe_pair s t rels (c, d)) = [?r']"
      by (simp only: obs filter_strengthen_same [OF r(1)])
    from False obtain j where k: "k = Suc j" by (cases k) auto
    have st: "strength ?r' = accumulated_strength (Suc k - 1)"
      by (simp add: r(2) k)
    have ev: "length (evidence ?r') = Suc k" by (simp add: r(3))
    have "consolidated (observe_pair s t rels (c, d)) a b (Suc k)"
      unfolding consolidated_def using flt st ev by (intro exI [of _ ?r'] if_not_P [THEN iffD2]) auto
    then show ?thesis using True by simp
  qed
next
  case False
  have disj: "\<not> rel_matches a b r" if "rel_matches c d r" for r
    using that by (rule other_pair_matches [OF False])
  have newno: "\<not> rel_matches a b \<lparr>er_source = c, er_target = d, er_type = t, strength = js_0_3,
                 evidence = [take 100 s],
                 er_confidence = calculateRelationshipConfidence s c d\<rparr>"
    by (rule disj) (simp add: rel_matches_def)
  have same: "filter (rel_matches a b) (observe_pair s t rels (c, d)) = filter (rel_matches a b) rels"
  proof (cases "find (rel_matches c d) rels = None")
    case True
    then show ?thesis using newno by (simp add: observe_pair_def)
  next
    case nf: False
    have "filter (rel_matches a b) (strengthen_first (rel_matches c d) (take 100 s) rels)
            = filter (rel_matches a b) rels"
      by (rule filter_strengthen_other) (rule disj)
    with nf show ?thesis by (simp add: observe_pair_def)
  qed
  from assms have "consolidated (observe_pair s t rels (c, d)) a b k"
    unfolding consolidated_def same .
  with False show ?thesis by simp
qed

lemma consolidated_foldl_pairs:
  "consolidated rels a b k \<Longrightarrow>
   consolidated (foldl (observe_pair s t) rels ps) a b (k + length (filter (same_pair a b) ps))"
proof (induction ps arbitrary: rels k)
  case Nil
  then show ?case by simp
next
  case (Cons p ps)
  obtain c d where p: "p = (c, d)" by (cases p)
  from consolidated_observe_pair [OF Cons.prems, of s t c d]
  have "consolidated (observe_pair s t rels p) a b (k + (if same_pair a b p then 1 else 0))"
    by (simp add: p)
  from Cons.IH [OF this] show ?case by (cases "same_pair a b p") (simp_all add: add.assoc)
qed

lemma count_pairs:
  assumes "distinct xs" and "a \<noteq> b"
  shows "length (filter (same_pair a b) (pairs xs)) = (if a \<in> set xs \<and> b \<in> set xs then 1 else 0)"
  using assms(1)
proof (induction xs)
  case Nil
  show ?case by simp
next
  case (Cons x xs)
  have one: "length (filter (\<lambda>y. y = c) xs) = (if c \<in> set xs then 1 else 0)" for c
    using Cons.prems by (induction xs) auto
  have none: "filter (\<lambda>y. False) xs = []" by simp
  have hd: "length (filter (same_pair a b) (map (Pair x) xs))
              = (if x = a \<and> b \<in> set xs then 1 else 0) + (if x = b \<and> a \<in> set xs then 1 else 0)"
  proof -
    have "filter (same_pair a b) (map (Pair x) xs)
            = map (Pair x) (filter (\<lambda>y. (x = a \<and> y = b) \<or> (x = b \<and> y = a)) xs)"
      by (simp add: filter_map comp_def same_pair_def)
    then show ?thesis using one [of b] one [of a] assms(2) by (cases "x = a"; cases "x = b") simp_all
  qed
  from Cons have tl: "length (filter (same_pair a b) (pairs xs)) = (if a \<in> set xs \<and> b \<in> set xs then 1 else 0)"
    by simp
  from Cons.prems have notin: "x \<notin> set xs" by simp
  have len: "length (filter (same_pair a b) (pairs (x # xs)))
          = (if x = a \<and> b \<in> set xs then 1 else 0) + (if x = b \<and> a \<in> set xs then 1 else 0)
            + (if a \<in> set xs \<and> b \<in> set xs then 1 else 0)"
    by (simp only: pairs.simps filter_append length_append hd tl)
  consider (xa) "x = a" | (xb) "x = b" | (other) "x \<noteq> a" "x \<noteq> b" by blast
  then show ?case
  proof cases
    case xa
    with notin assms(2) show ?thesis unfolding len by simp
  next
    case xb
    with notin assms(2) show ?thesis unfolding len by simp
  next
    case other
    then show ?thesis unfolding len by simp
  qed
qed

lemma two_members: "a \<in> set xs \<Longrightarrow> b \<in> set xs \<Longrightarrow> a \<noteq> b \<Longrightarrow> 2 \<le> length xs"
  by (cases xs; cases "tl xs") auto

lemma consolidated_observe_sentence:
  assumes "distinct names" "a \<in> set names" "b \<in> set names" "a \<noteq> b" "consolidated rels a b k"
  shows "consolidated (observe_sentence names rels s) a b
           (k + (if str_includes s a \<and> str_includes s b then 1 else 0))"
proof -
  let ?found = "filter (\<lambda>concept. str_includes s concept) names"
  have d: "distinct ?found" using assms(1) by simp
  have cnt: "length (filter (same_pair a b) (pairs ?found))
               = (if str_includes s a \<and> str_includes s b then 1 else 0)"
    using count_pairs [OF d assms(4)] assms(2,3) by simp
  show ?thesis
  proof (cases "2 \<le> length ?found")
    case True
    then show ?thesis
      using consolidated_foldl_pairs [OF assms(5), of s _ "pairs ?found"] cnt
      by (simp add: observe_sentence_def Let_def)
  next
    case False
    then have "\<not> (str_includes s a \<and> str_includes s b)"
      using two_members [of a ?found b] assms(2,3,4) by auto
    with False assms(5) show ?thesis by (auto simp: observe_sentence_def Let_def)
  qed
qed

lemma consolidated_foldl_sentences:
  assumes "distinct names" "a \<in> set names" "b \<in> set names" "a \<noteq> b"
  shows "consolidated rels a b k \<Longrightarrow>
         consolidated (foldl (observe_sentence names) rels ss) a b
           (k + length (filter (\<lambda>s. str_includes s a \<and> str_includes s b) ss))"
proof (induction ss arbitrary: rels k)
  case Nil
  then show ?case by simp
next
  case (Cons s ss)
  from Cons.IH [OF consolidated_observe_sentence [OF assms Cons.prems, of s]]
  show ?case by (cases "str_includes s a"; cases "str_includes s b") (simp_all add: add.assoc)
qed

lemma consolidated_foldl_tiddlers:
  assumes "distinct names" "a \<in> set names" "b \<in> set names" "a \<noteq> b"
  shows "consolidated rels a b k \<Longrightarrow>
         consolidated (foldl (observe_tiddler names) rels ts) a b (k + cooccurrences ts a b)"
proof (induction ts arbitrary: rels k)
  case Nil
  then show ?case by (simp add: cooccurrences_def all_sentences_def)
next
  case (Cons t ts)
  from consolidated_foldl_sentences [OF assms Cons.prems]
  have "consolidated (observe_tiddler names rels t) a b
          (k + length (filter (\<lambda>s. str_includes s a \<and> str_includes s b)
                         (splitIntoSentences (toLowerCase (tid_text t)))))"
    by (simp add: observe_tiddler_def)
  from Cons.IH [OF this] show ?case
    by (simp add: cooccurrences_def all_sentences_def add.assoc)
qed

lemma set_add_props: "distinct xs \<Longrightarrow> distinct (set_add xs x) \<and> set (set_add xs x) = insert x (set xs)"
  by (auto simp: set_add_def)

lemma foldl_set_add:
  "distinct acc \<Longrightarrow> distinct (foldl set_add acc xs) \<and> set (foldl set_add acc xs) = set acc \<union> set xs"
proof (induction xs arbitrary: acc)
  case Nil
  then show ?case by simp
next
  case (Cons x xs)
  from set_add_props [OF Cons.prems, of x] Cons.IH [of "set_add acc x"]
  show ?case by auto
qed

text \<open>
  What \<open>extractRelationships\<close> does in general. Relationships are kept per unordered pair
  of concepts, whatever the relation type and the order seen: for two distinct known
  concepts that occur together in \<open>n\<close> qualifying sentences, the result holds at most one
  relationship between them; it has \<open>n\<close> pieces of evidence and the strength 0.3 with 0.1
  added \<open>n - 1\<close> times, without a cap, and it is in the result when that strength is above
  0.2.
\<close>

lemma extractRelationships_per_pair:
  assumes "a \<in> set (map ec_name concepts)" "b \<in> set (map ec_name concepts)" "a \<noteq> b"
    and "n = cooccurrences tiddlers a b"
  shows "(n = 0 \<longrightarrow> filter (rel_matches a b) (extractRelationships tiddlers concepts) = []) \<and>
         (0 < n \<longrightarrow>
            (\<exists>r. filter (rel_matches a b) (extractRelationships tiddlers concepts)
                   = (if js_0_2 < accumulated_strength (n - 1) then [r] else []) \<and>
                 strength r = accumulated_strength (n - 1) \<and> length (evidence r) = n))"
proof -
  let ?names = "foldl set_add [] (map ec_name concepts)"
  let ?rels = "foldl (observe_tiddler ?names) [] tiddlers"
  from foldl_set_add [of "[]" "map ec_name concepts"]
  have d: "distinct ?names" and s: "set ?names = set (map ec_name concepts)" by simp_all
  have c0: "consolidated [] a b 0" by (simp add: consolidated_def)
  from consolidated_foldl_tiddlers [OF d _ _ assms(3) c0, of tiddlers] assms(1,2) s
  have c: "consolidated ?rels a b n" by (simp add: assms(4))
  have res: "filter (rel_matches a b) (extractRelationships tiddlers concepts)
               = sort_key (\<lambda>r. - strength r)
                   (filter (\<lambda>r. js_0_2 < strength r) (filter (rel_matches a b) ?rels))"
    by (simp add: extractRelationships_def Let_def filter_sort conj_commute)
  show ?thesis
  proof (cases "n = 0")
    case True
    with c have "filter (rel_matches a b) ?rels = []" by (simp add: consolidated_def)
    with res True show ?thesis by simp
  next
    case False
    with c obtain r where r: "filter (rel_matches a b) ?rels = [r]"
      "strength r = accumulated_strength (n - 1)" "length (evidence r) = n"
      by (auto simp: consolidated_def)
    from res r(1,2)
    have "filter (rel_matches a b) (extractRelationships tiddlers concepts)
            = (if js_0_2 < accumulated_strength (n - 1) then [r] else [])" by simp
    with r(2,3) False show ?thesis by blast
  qed
qed

subsection \<open>The two corpora\<close>

lemma extractConcepts_merge_corpus: "extractConcepts merge_corpus = Some merge_concepts"
  by code_simp

lemma sentence_types_merge_corpus:
  "map (\<lambda>s. identifyRelationshipType s [''alpha'', ''beta'']) (all_sentences merge_corpus)
     = [''is-a'', ''has-a'']"
  by code_simp

lemma extractRelationships_merge_corpus:
  "map (\<lambda>r. (er_source r, er_type r, er_target r, strength r, length (evidence r)))
     (extractRelationships merge_corpus merge_concepts)
     = [(''alpha'', ''is-a'', ''beta'', 3602879701896397 / 9007199254740992, 2)]"
  by code_simp

lemma extractConcepts_repeat_corpus: "extractConcepts repeat_corpus = Some repeat_concepts"
  by code_simp

lemma sentence_types_repeat_corpus:
  "map (\<lambda>s. identifyRelationshipType s [''alpha'', ''beta'']) (all_sentences repeat_corpus)
     = [''is-a'', ''is-a'', ''is-a'', ''is-a'', ''is-a'', ''is-a'', ''is-a'', ''is-a'', ''is-a'']"
  by code_simp

lemma extractRelationships_repeat_corpus:
  "map (\<lambda>r. (er_source r, er_type r, er_target r, strength r, length (evidence r)))
     (extractRelationships repeat_corpus repeat_concepts)
     = [(''alpha'', ''is-a'', ''beta'', 4953959590107545 / 4503599627370496, 9)]"
  by code_simp

text \<open>
  Claim C4. Two corpora on which \<open>extractRelationships\<close> departs from the claim. In the
  document \<open>Alpha is a beta thing. Alpha has beta inside.\<close> the triple
  \<open>(alpha, is-a, beta)\<close> is seen in one sentence and the triple \<open>(alpha, has-a, beta)\<close> in
  the other; the result is one \<open>is-a\<close> relationship with two pieces of evidence and the
  strength 0.4, and no \<open>has-a\<close> relationship: distinct triples are merged. In the document
  that repeats the sentence \<open>Alpha is a beta.\<close> nine times the triple
  \<open>(alpha, is-a, beta)\<close> is seen nine times; the strength of the result is
  1.0999999999999999, above 1.0: the strength is not capped.
\<close>

theorem consolidation_merges_types_without_cap:
  "map (\<lambda>s. identifyRelationshipType s [''alpha'', ''beta'']) (all_sentences merge_corpus)
     = [''is-a'', ''has-a''] \<and>
   Option.bind (extractConcepts merge_corpus) (\<lambda>cs.
     Some (map (\<lambda>r. (er_source r, er_type r, er_target r, strength r, length (evidence r)))
             (extractRelationships merge_corpus cs)))
     = Some [(''alpha'', ''is-a'', ''beta'', 3602879701896397 / 9007199254740992, 2)] \<and>
   map (\<lambda>s. identifyRelationshipType s [''alpha'', ''beta'']) (all_sentences repeat_corpus)
     = [''is-a'', ''is-a'', ''is-a'', ''is-a'', ''is-a'', ''is-a'', ''is-a'', ''is-a'', ''is-a''] \<and>
   Option.bind (extractConcepts repeat_corpus) (\<lambda>cs.
     Some (map (\<lambda>r. (er_source r, er_type r, er_target r, strength r, length (evidence r)))
             (extractRelationships repeat_corpus cs)))
     = Some [(''alpha'', ''is-a'', ''beta'', 4953959590107545 / 4503599627370496, 9)] \<and>
   (1 :: rat) < 4953959590107545 / 4503599627370496"
  by (simp only: extractConcepts_merge_corpus extractRelationships_merge_corpus
        sentence_types_merge_corpus extractConcepts_repeat_corpus
        extractRelationships_repeat_corpus sentence_types_repeat_corpus Option.bind.simps)
     simp

section \<open>Verification of the hierarchy builder\<close>

subsection \<open>Every state of the builder is a forest\<close>

lemma parent_of_key: "parent_of hs k = Some p \<Longrightarrow> k \<in> fst ` set hs"
  by (auto simp: parent_of_def split: option.splits dest: map_of_SomeD intro: rev_image_eqI)

lemma well_keyed_lookup:
  assumes "well_keyed hs" and "map_of hs k = Some node"
  shows "hn_id node = k" and "k \<noteq> []"
  using assms map_of_SomeD [OF assms(2)] by (auto simp: well_keyed_def)

lemma forest_parent_nonempty:
  assumes "well_keyed hs" and "is_forest hs" and "parent_of hs k = Some p"
  shows "p \<noteq> []"
proof -
  from assms(2,3) have "p \<in> fst ` set hs" unfolding is_forest_def by blast
  then obtain node where "(p, node) \<in> set hs" by force
  with assms(1) show ?thesis unfolding well_keyed_def by blast
qed

lemma has_parent_iff:
  assumes "well_keyed hs" and "is_forest hs" and "map_of hs k = Some node"
  shows "has_parent node \<longleftrightarrow> parent_of hs k \<noteq> None"
proof (cases "parent node")
  case None
  with assms(3) show ?thesis by (simp add: has_parent_def parent_of_def)
next
  case (Some p)
  with assms(3) have "parent_of hs k = Some p" by (simp add: parent_of_def)
  from forest_parent_nonempty [OF assms(1,2) this] Some assms(3)
  show ?thesis by (simp add: has_parent_def parent_of_def)
qed

text \<open>The walk of \<open>hasCycleDFS\<close> up the parent chain is complete on a forest.\<close>

lemma hasCycleDFS_complete:
  "acyclic (parent_edges (hierarchy h)) \<Longrightarrow>
   \<forall>k p. parent_of (hierarchy h) k = Some p \<longrightarrow> p \<noteq> [] \<Longrightarrow>
   \<forall>v \<in> set visited. (v, currentId) \<in> (parent_edges (hierarchy h))\<^sup>+ \<Longrightarrow>
   \<not> hasCycleDFS h currentId targetId visited \<Longrightarrow>
   (currentId, targetId) \<notin> (parent_edges (hierarchy h))\<^sup>*"
proof (induction h currentId targetId visited rule: hasCycleDFS.induct)
  case (1 h currentId targetId visited)
  let ?E = "parent_edges (hierarchy h)"
  note acyc = "1.prems"(1) and ne = "1.prems"(2)
  from "1.prems"(4) have neq: "currentId \<noteq> targetId"
    by (subst (asm) hasCycleDFS.simps) (simp split: if_splits)
  have nv: "currentId \<notin> set visited"
  proof
    assume "currentId \<in> set visited"
    with "1.prems"(3) have "(currentId, currentId) \<in> ?E\<^sup>+" by blast
    with acyc show False unfolding acyclic_def by blast
  qed
  show ?case
  proof (cases "parent_of (hierarchy h) currentId")
    case None
    show ?thesis
    proof
      assume "(currentId, targetId) \<in> ?E\<^sup>*"
      then show False using neq None
        by (cases rule: converse_rtranclE) (auto simp: parent_edges_def)
    qed
  next
    case (Some p)
    then obtain current where cur: "map_of (hierarchy h) currentId = Some current"
      and par: "parent current = Some p"
      by (auto simp: parent_of_def split: option.splits)
    from ne Some have pne: "p \<noteq> []" by blast
    have edge: "(currentId, p) \<in> ?E" using Some by (simp add: parent_edges_def)
    have "\<not> hasCycleDFS h p targetId (currentId # visited)"
      using "1.prems"(4) neq nv cur par pne by (subst (asm) hasCycleDFS.simps) simp
    moreover have "\<forall>v \<in> set (currentId # visited). (v, p) \<in> ?E\<^sup>+"
      using "1.prems"(3) edge by (auto intro: trancl_into_trancl)
    ultimately have np: "(p, targetId) \<notin> ?E\<^sup>*"
      using "1.IH" [OF neq nv cur par pne acyc ne] by blast
    show ?thesis
    proof
      assume "(currentId, targetId) \<in> ?E\<^sup>*"
      then show False
      proof (cases rule: converse_rtranclE)
        case base
        with neq show False by simp
      next
        case (step y)
        from step(1) Some have "y = p" by (auto simp: parent_edges_def)
        with step(2) np show False by simp
      qed
    qed
  qed
qed


lemma well_keyed_update:
  assumes "well_keyed hs" and "hn_id node = k" and "k \<noteq> []"
  shows "well_keyed (AList.update k node hs)"
proof -
  have d: "distinct (map fst (AList.update k node hs))"
    using assms(1) by (simp add: well_keyed_def distinct_update)
  have "\<forall>(k', node') \<in> set (AList.update k node hs). hn_id node' = k' \<and> k' \<noteq> []"
  proof (clarify)
    fix k' node'
    assume "(k', node') \<in> set (AList.update k node hs)"
    with d have m: "map_of (AList.update k node hs) k' = Some node'" by simp
    show "hn_id node' = k' \<and> k' \<noteq> []"
    proof (cases "k' = k")
      case True
      with m assms(2,3) show ?thesis by (simp add: update_conv')
    next
      case False
      with m have "map_of hs k' = Some node'" by (simp add: update_conv')
      from well_keyed_lookup [OF assms(1) this] show ?thesis by simp
    qed
  qed
  with d show ?thesis by (simp add: well_keyed_def)
qed

lemma addParentChildRelationship_forest_state:
  assumes inv: "forest_state h"
    and pn: "map_of (hierarchy h) pid = Some parentNode"
    and cn: "map_of (hierarchy h) cid = Some child"
  shows "forest_state (addParentChildRelationship h parentNode child confidence)"
proof -
  let ?hs = "hierarchy h"
  let ?E = "parent_edges ?hs"
  from inv have wk: "well_keyed ?hs" and fo: "is_forest ?hs" by (simp_all add: forest_state_def)
  from well_keyed_lookup [OF wk pn] have pid: "hn_id parentNode = pid" and pne: "pid \<noteq> []" by simp_all
  from well_keyed_lookup [OF wk cn] have cid: "hn_id child = cid" and cne: "cid \<noteq> []" by simp_all
  show ?thesis
  proof (cases "has_parent child \<or> wouldCreateCycle h pid cid")
    case True
    then have "addParentChildRelationship h parentNode child confidence = h"
      by (auto simp: addParentChildRelationship_def pid cid)
    with inv show ?thesis by simp
  next
    case False
    then have np: "parent_of ?hs cid = None" using has_parent_iff [OF wk fo cn] by simp
    from fo have acyc: "acyclic ?E" by (simp add: is_forest_def)
    have pnes: "\<forall>k p. parent_of ?hs k = Some p \<longrightarrow> p \<noteq> []"
      using forest_parent_nonempty [OF wk fo] by blast
    have nc: "(pid, cid) \<notin> ?E\<^sup>*"
      using hasCycleDFS_complete [OF acyc pnes, of "[]" pid cid] False
      by (simp add: wouldCreateCycle_def)
    then have neq: "pid \<noteq> cid" by auto
    define child' where
      "child' = child\<lparr>parent := Some pid,
                       hn_confidence := min (hn_confidence child + confidence * (1 / 10)) 1\<rparr>"
    define parent' where "parent' = parentNode\<lparr>children := children parentNode @ [cid]\<rparr>"
    define hs' where "hs' = AList.update pid parent' (AList.update cid child' ?hs)"
    have res: "hierarchy (addParentChildRelationship h parentNode child confidence) = hs'"
      using False
      by (simp add: addParentChildRelationship_def pid cid hs'_def child'_def parent'_def Let_def)
    have m: "map_of hs' = (map_of ?hs)(cid \<mapsto> child', pid \<mapsto> parent')"
      by (simp add: hs'_def update_conv')
    have keys: "fst ` set hs' = fst ` set ?hs"
    proof -
      have "pid \<in> fst ` set ?hs" and "cid \<in> fst ` set ?hs"
        using map_of_SomeD [OF pn] map_of_SomeD [OF cn] by force+
      then show ?thesis by (auto simp: hs'_def dom_update)
    qed
    have par: "parent_of hs' k = (if k = cid then Some pid else parent_of ?hs k)" for k
      using neq pn by (simp add: parent_of_def m child'_def parent'_def)
    have chl: "children_of hs' k = (if k = pid then children_of ?hs pid @ [cid]
                                   else children_of ?hs k)" for k
      using neq pn cn by (simp add: children_of_def m child'_def parent'_def)
    have wk': "well_keyed hs'"
      unfolding hs'_def
      by (intro well_keyed_update wk) (simp_all add: child'_def parent'_def pid cid pne cne)
    have edges: "parent_edges hs' = insert (cid, pid) ?E"
      using np by (auto simp: parent_edges_def par split: if_splits)
    from fo have f4: "\<And>k p. parent_of ?hs k = Some p \<Longrightarrow> p \<in> fst ` set ?hs \<and> k \<in> set (children_of ?hs p)"
      and f5: "\<And>p c. c \<in> set (children_of ?hs p) \<Longrightarrow> parent_of ?hs c = Some p"
      and f6: "\<And>p. distinct (children_of ?hs p)"
      unfolding is_forest_def by blast+
    have a': "acyclic (parent_edges hs')"
      unfolding edges using acyc nc by (simp add: acyclic_insert)
    have g4: "p \<in> fst ` set hs' \<and> k \<in> set (children_of hs' p)" if "parent_of hs' k = Some p" for k p
    proof (cases "k = cid")
      case True
      with that have "p = pid" by (simp add: par)
      moreover have "pid \<in> fst ` set ?hs" using map_of_SomeD [OF pn] by force
      ultimately show ?thesis using True by (simp add: keys chl)
    next
      case False
      with that have "parent_of ?hs k = Some p" by (simp add: par)
      from f4 [OF this] show ?thesis by (auto simp: keys chl)
    qed
    have notchild: "cid \<notin> set (children_of ?hs q)" for q
    proof
      assume "cid \<in> set (children_of ?hs q)"
      from f5 [OF this] np show False by simp
    qed
    have g5: "parent_of hs' c = Some p" if "c \<in> set (children_of hs' p)" for p c
    proof (cases "c = cid")
      case True
      with that notchild have "p = pid" by (auto simp: chl split: if_splits)
      with True show ?thesis by (simp add: par)
    next
      case False
      with that have "c \<in> set (children_of ?hs p)" by (auto simp: chl split: if_splits)
      from f5 [OF this] False show ?thesis by (simp add: par)
    qed
    have g6: "distinct (children_of hs' p)" for p
      using f6 [of p] notchild [of pid] by (auto simp: chl)
    have "is_forest hs'"
      unfolding is_forest_def using a' g4 g5 g6 by blast
    with wk' res show ?thesis by (simp add: forest_state_def)
  qed
qed


lemma is_forest_links:
  assumes "is_forest hs"
    and "parent_of hs' = parent_of hs" and "children_of hs' = children_of hs"
    and "fst ` set hs \<subseteq> fst ` set hs'"
  shows "is_forest hs'"
proof -
  have e: "parent_edges hs' = parent_edges hs" by (simp add: parent_edges_def assms(2))
  from assms(1) have a: "acyclic (parent_edges hs)"
    and f4: "\<And>k p. parent_of hs k = Some p \<Longrightarrow> p \<in> fst ` set hs \<and> k \<in> set (children_of hs p)"
    and f5: "\<And>p c. c \<in> set (children_of hs p) \<Longrightarrow> parent_of hs c = Some p"
    and f6: "\<And>p. distinct (children_of hs p)"
    unfolding is_forest_def by blast+
  from f4 assms(4)
  have g4: "\<And>k p. parent_of hs k = Some p \<Longrightarrow> p \<in> fst ` set hs' \<and> k \<in> set (children_of hs p)"
    by blast
  show ?thesis
    unfolding is_forest_def e assms(2) assms(3) using a g4 f5 f6 by blast
qed

lemma forest_state_add_bare:
  assumes inv: "forest_state h"
    and "parent_of (hierarchy h) k = None" and "children_of (hierarchy h) k = []"
    and "hn_id node = k" and "k \<noteq> []" and "parent node = None" and "children node = []"
  shows "forest_state \<lparr>hierarchy = AList.update k node (hierarchy h), rootNodes = R\<rparr>"
proof -
  let ?hs = "hierarchy h"
  let ?hs' = "AList.update k node ?hs"
  from inv have wk: "well_keyed ?hs" and fo: "is_forest ?hs" by (simp_all add: forest_state_def)
  have p: "parent_of ?hs' = parent_of ?hs"
    using assms(2,6) by (auto simp: parent_of_def update_conv' fun_eq_iff)
  have c: "children_of ?hs' = children_of ?hs"
    using assms(3,7) by (auto simp: children_of_def update_conv' fun_eq_iff)
  have "fst ` set ?hs \<subseteq> fst ` set ?hs'" by (auto simp: dom_update)
  from is_forest_links [OF fo p c this] well_keyed_update [OF wk assms(4,5)]
  show ?thesis by (simp add: forest_state_def)
qed

lemma foldl_invariant:
  assumes "P h" and "\<And>h x. x \<in> set xs \<Longrightarrow> P h \<Longrightarrow> P (f h x)"
  shows "P (foldl f h xs)"
  using assms by (induction xs arbitrary: h) simp_all

lemma generateId_nonempty: "name \<noteq> [] \<Longrightarrow> generateId name \<noteq> []"
  by (simp add: generateId_def toLowerCase_def)

lemma forest_state_empty: "forest_state \<lparr>hierarchy = [], rootNodes = []\<rparr>"
  by (simp add: forest_state_def well_keyed_def is_forest_def parent_edges_def parent_of_def
        children_of_def acyclic_def)

lemma initializeNodes_forest_state:
  assumes "\<forall>c \<in> set concepts. ec_name c \<noteq> []"
  shows "forest_state (initializeNodes concepts)"
proof -
  define P where "P h = (forest_state h \<and> (\<forall>k. parent_of (hierarchy h) k = None
                                       \<and> children_of (hierarchy h) k = []))" for h
  have "P (initializeNodes concepts)"
    unfolding initializeNodes_def
  proof (rule foldl_invariant)
    show "P \<lparr>hierarchy = [], rootNodes = []\<rparr>"
      using forest_state_empty by (simp add: P_def parent_of_def children_of_def)
  next
    fix h concept
    assume mem: "concept \<in> set concepts" and "P h"
    then have inv: "forest_state h" and bare: "\<And>k. parent_of (hierarchy h) k = None"
        "\<And>k. children_of (hierarchy h) k = []" by (simp_all add: P_def)
    from mem assms have ne: "generateId (ec_name concept) \<noteq> []"
      by (simp add: generateId_nonempty)
    define node where
      "node = \<lparr>hn_id = generateId (ec_name concept), hn_name = ec_name concept, level = 0,
               children = [], parent = None, hn_confidence = ec_confidence concept,
               hn_evidence = contexts concept, hn_properties = inferProperties concept\<rparr>"
    let ?h' = "\<lparr>hierarchy = AList.update (hn_id node) node (hierarchy h),
                rootNodes = set_add (rootNodes h) (hn_id node)\<rparr>"
    have "forest_state ?h'"
      by (rule forest_state_add_bare [OF inv bare(1) bare(2)]) (simp_all add: node_def ne)
    moreover have "parent_of (hierarchy ?h') k = None \<and> children_of (hierarchy ?h') k = []" for k
      using bare(1) [of k] bare(2) [of k]
      by (simp add: parent_of_def children_of_def update_conv' node_def)
    ultimately have "P ?h'" by (simp add: P_def)
    then show "P (let node = \<lparr>hn_id = generateId (ec_name concept), hn_name = ec_name concept,
                              level = 0, children = [], parent = None,
                              hn_confidence = ec_confidence concept,
                              hn_evidence = contexts concept,
                              hn_properties = inferProperties concept\<rparr>
                  in \<lparr>hierarchy = AList.update (hn_id node) node (hierarchy h),
                      rootNodes = set_add (rootNodes h) (hn_id node)\<rparr>)"
      by (simp add: Let_def node_def)
  qed
  then show ?thesis by (simp add: P_def)
qed

lemma buildIsARelationships_forest_state:
  assumes "forest_state h"
  shows "forest_state (buildIsARelationships h rels)"
  unfolding buildIsARelationships_def
proof (rule foldl_invariant [where P = forest_state, OF assms])
  fix h rel
  assume "forest_state h"
  then show "forest_state (let childId = generateId (er_source rel); parentId = generateId (er_target rel)
                   in case (map_of (hierarchy h) childId, map_of (hierarchy h) parentId) of
                        (Some childNode, Some parentNode) \<Rightarrow>
                          addParentChildRelationship h parentNode childNode (er_confidence rel)
                      | _ \<Rightarrow> h)"
    by (auto simp: Let_def split: option.splits intro: addParentChildRelationship_forest_state)
qed

lemma place_concept_forest_state:
  assumes "forest_state h"
  shows "forest_state (place_concept typeParentId specificConcepts lvl h concept)"
  using assms unfolding place_concept_def
  by (auto simp: Let_def split: option.splits intro: addParentChildRelationship_forest_state)

lemma type_name_nonempty: "type_name t \<noteq> []"
  by (cases t) (simp_all add: type_name_def)

lemma createTypeHierarchy_forest_state:
  assumes "forest_state h"
  shows "forest_state (createTypeHierarchy h t concepts)"
proof -
  let ?tp = "generateId (type_name t)"
  define h1 where
    "h1 = (if map_of (hierarchy h) ?tp = None
           then \<lparr>hierarchy = AList.update ?tp
                               \<lparr>hn_id = ?tp, hn_name = capitalize (type_name t),
                                level = 0, children = [], parent = None,
                                hn_confidence = 8 / 10,
                                hn_evidence = [''Inferred from concept types''],
                                hn_properties = []\<rparr> (hierarchy h),
                 rootNodes = set_add (rootNodes h) ?tp\<rparr>
           else h)"
  have "forest_state h1"
  proof (cases "map_of (hierarchy h) ?tp = None")
    case True
    have ne: "?tp \<noteq> []" by (rule generateId_nonempty [OF type_name_nonempty])
    from True show ?thesis
      unfolding h1_def
      by (simp del: One_nat_def)
         (rule forest_state_add_bare [OF assms], simp_all add: parent_of_def children_of_def ne)
  next
    case False
    then have "h1 = h" unfolding h1_def by (rule if_not_P)
    with assms show ?thesis by simp
  qed
  then have "forest_state (foldl (\<lambda>h (lvl, levelConcepts).
                      foldl (place_concept ?tp (groupBySpecificity concepts) lvl) h levelConcepts)
                    h1 (groupBySpecificity concepts))"
  proof (rule foldl_invariant [where P = forest_state])
    fix h :: ConceptHierarchy and x :: "nat \<times> ExtractedConcept list"
    assume "forest_state h"
    then have "forest_state (foldl (place_concept ?tp (groupBySpecificity concepts) (fst x)) h (snd x))"
      by (rule foldl_invariant [where P = forest_state]) (rule place_concept_forest_state)
    then show "forest_state (case x of (lvl, levelConcepts) \<Rightarrow>
                       foldl (place_concept ?tp (groupBySpecificity concepts) lvl) h levelConcepts)"
      by (simp add: case_prod_unfold)
  qed
  then show ?thesis by (simp add: createTypeHierarchy_def Let_def h1_def)
qed

lemma inferLinguisticHierarchies_forest_state:
  assumes "forest_state h"
  shows "forest_state (inferLinguisticHierarchies h concepts)"
  unfolding inferLinguisticHierarchies_def
proof (rule foldl_invariant [where P = forest_state, OF assms])
  fix h concept
  assume inv: "forest_state h"
  have fold: "forest_state (foldl (\<lambda>h potentialParent.
                 case (map_of (hierarchy h) (generateId (ec_name concept)),
                       map_of (hierarchy h) (generateId (ec_name potentialParent))) of
                   (Some childNode, Some parentNode) \<Rightarrow>
                     if \<not> has_parent childNode
                     then addParentChildRelationship h parentNode childNode (4 / 10) else h
                 | _ \<Rightarrow> h) h ps)" for ps
  proof (rule foldl_invariant [where P = forest_state, OF inv])
    fix h potentialParent
    assume "forest_state h"
    then show "forest_state (case (map_of (hierarchy h) (generateId (ec_name concept)),
                           map_of (hierarchy h) (generateId (ec_name potentialParent))) of
                       (Some childNode, Some parentNode) \<Rightarrow>
                         if \<not> has_parent childNode
                         then addParentChildRelationship h parentNode childNode (4 / 10) else h
                     | _ \<Rightarrow> h)"
      by (auto split: option.splits intro: addParentChildRelationship_forest_state)
  qed
  show "forest_state (let ws = split_ws (ec_name concept)
                   in if length ws > 1
                      then foldl (\<lambda>h potentialParent.
                              case (map_of (hierarchy h) (generateId (ec_name concept)),
                                    map_of (hierarchy h) (generateId (ec_name potentialParent))) of
                                (Some childNode, Some parentNode) \<Rightarrow>
                                  if \<not> has_parent childNode
                                  then addParentChildRelationship h parentNode childNode (4 / 10)
                                  else h
                              | _ \<Rightarrow> h)
                             h (concat (map (\<lambda>word.
                                  case find (\<lambda>c. toLowerCase (ec_name c) = toLowerCase word)
                                         concepts of
                                    Some c \<Rightarrow> [c] | None \<Rightarrow> []) ws))
                      else h)"
    using inv fold [of "concat (map (\<lambda>word.
                                  case find (\<lambda>c. toLowerCase (ec_name c) = toLowerCase word)
                                         concepts of
                                    Some c \<Rightarrow> [c] | None \<Rightarrow> []) (split_ws (ec_name concept)))"]
    by (simp add: Let_def)
qed

lemma inferMissingHierarchy_forest_state:
  assumes "forest_state h"
  shows "forest_state (inferMissingHierarchy h concepts)"
proof -
  have "forest_state (foldl (\<lambda>h (t, typeConcepts). createTypeHierarchy h t typeConcepts) h
                (group_by ec_type concepts))"
  proof (rule foldl_invariant [where P = forest_state, OF assms])
    fix h :: ConceptHierarchy and x :: "concept_type \<times> ExtractedConcept list"
    assume "forest_state h"
    then show "forest_state (case x of (t, typeConcepts) \<Rightarrow> createTypeHierarchy h t typeConcepts)"
      by (simp add: case_prod_unfold createTypeHierarchy_forest_state)
  qed
  then show ?thesis
    unfolding inferMissingHierarchy_def by (rule inferLinguisticHierarchies_forest_state)
qed


lemma links_forest:
  assumes "links hs' = links hs" and "is_forest hs"
  shows "is_forest hs'"
proof (rule is_forest_links [OF assms(2)])
  from assms(1) show "parent_of hs' = parent_of hs" by (simp add: links_def)
  from assms(1) show "children_of hs' = children_of hs" by (simp add: links_def)
  from assms(1) have "fst ` set hs' = fst ` set hs" by (simp add: links_def)
  then show "fst ` set hs \<subseteq> fst ` set hs'" by blast
qed

lemma links_ancestors:
  assumes "links hs' = links hs"
  shows "ancestors hs' = ancestors hs"
proof -
  from assms have "parent_edges hs' = parent_edges hs"
    by (simp add: links_def parent_edges_def)
  then show ?thesis by (simp add: ancestors_def fun_eq_iff)
qed

lemma links_keys: "links hs' = links hs \<Longrightarrow> fst ` set hs' = fst ` set hs"
  by (simp add: links_def)

lemma links_update_level:
  assumes "map_of hs k = Some node"
  shows "links (AList.update k (node\<lparr>level := l\<rparr>) hs) = links hs"
proof -
  have "k \<in> fst ` set hs" using map_of_SomeD [OF assms] by force
  then have "fst ` set (AList.update k (node\<lparr>level := l\<rparr>) hs) = fst ` set hs"
    by (auto simp: dom_update)
  moreover have "parent_of (AList.update k (node\<lparr>level := l\<rparr>) hs) = parent_of hs"
    using assms by (auto simp: parent_of_def update_conv' fun_eq_iff)
  moreover have "children_of (AList.update k (node\<lparr>level := l\<rparr>) hs) = children_of hs"
    using assms by (auto simp: children_of_def update_conv' fun_eq_iff)
  ultimately show ?thesis by (simp add: links_def)
qed

lemma ancestors_keys:
  assumes "is_forest hs"
  shows "ancestors hs k \<subseteq> fst ` set hs"
proof
  fix m
  assume "m \<in> ancestors hs k"
  then have "(k, m) \<in> (parent_edges hs)\<^sup>+" by (simp add: ancestors_def)
  then obtain j where "(j, m) \<in> parent_edges hs" by (auto elim: tranclE)
  then have "parent_of hs j = Some m" by (simp add: parent_edges_def)
  with assms show "m \<in> fst ` set hs" unfolding is_forest_def by blast
qed

lemma card_ancestors_le:
  assumes "is_forest hs"
  shows "card (ancestors hs k) \<le> card (fst ` set hs)"
  by (rule card_mono [OF _ ancestors_keys [OF assms]]) simp

lemma card_ancestors_child:
  assumes fo: "is_forest hs" and par: "parent_of hs c = Some p"
  shows "card (ancestors hs c) = Suc (card (ancestors hs p))"
proof -
  let ?E = "parent_edges hs"
  have edge: "(c, p) \<in> ?E" using par by (simp add: parent_edges_def)
  have "ancestors hs c = insert p (ancestors hs p)"
  proof (intro set_eqI iffI)
    fix m
    assume "m \<in> ancestors hs c"
    then have "(c, m) \<in> ?E\<^sup>+" by (simp add: ancestors_def)
    then show "m \<in> insert p (ancestors hs p)"
    proof (rule converse_tranclE)
      assume "(c, m) \<in> ?E"
      with par show ?thesis by (auto simp: parent_edges_def)
    next
      fix y
      assume "(c, y) \<in> ?E" and rest: "(y, m) \<in> ?E\<^sup>+"
      with par have "y = p" by (auto simp: parent_edges_def)
      with rest show ?thesis by (simp add: ancestors_def)
    qed
  next
    fix m
    assume "m \<in> insert p (ancestors hs p)"
    then have "m = p \<or> (p, m) \<in> ?E\<^sup>+" by (simp add: ancestors_def)
    then have "(c, m) \<in> ?E\<^sup>+"
    proof
      assume "m = p"
      with edge show ?thesis by blast
    next
      assume "(p, m) \<in> ?E\<^sup>+"
      with edge show ?thesis by (rule trancl_into_trancl2)
    qed
    then show "m \<in> ancestors hs c" by (simp add: ancestors_def)
  qed
  moreover have "p \<notin> ancestors hs p"
  proof
    assume "p \<in> ancestors hs p"
    then have "(p, p) \<in> ?E\<^sup>+" by (simp add: ancestors_def)
    moreover from fo have "acyclic ?E" by (simp add: is_forest_def)
    ultimately show False unfolding acyclic_def by blast
  qed
  moreover have "finite (ancestors hs p)"
    by (rule finite_subset [OF ancestors_keys [OF fo]]) simp
  ultimately show ?thesis by simp
qed

lemma calculateNodeLevel_returns:
  "is_forest hs \<Longrightarrow> card (fst ` set hs) < depth + card (ancestors hs nodeId) \<Longrightarrow>
   \<exists>hs'. calculateNodeLevel depth hs nodeId lvl = Some hs' \<and> links hs' = links hs"
  and calculateNodeLevel_children_returns:
  "is_forest hs \<Longrightarrow> \<forall>c \<in> set cs. card (fst ` set hs) < depth + card (ancestors hs c) \<Longrightarrow>
   \<exists>hs'. calculateNodeLevel_children depth hs cs lvl = Some hs' \<and> links hs' = links hs"
proof (induction depth hs nodeId lvl and depth hs cs lvl
       rule: calculateNodeLevel_calculateNodeLevel_children.induct)
  case (1 hs nodeId lvl)
  from card_ancestors_le [OF 1(1), of nodeId] 1(2) show ?case by simp
next
  case (2 depth hs nodeId lvl)
  show ?case
  proof (cases "map_of hs nodeId")
    case None
    then show ?thesis by simp
  next
    case (Some node)
    let ?hs1 = "AList.update nodeId (node\<lparr>level := lvl\<rparr>) hs"
    have l1: "links ?hs1 = links hs" by (rule links_update_level [OF Some])
    have fo1: "is_forest ?hs1" by (rule links_forest [OF l1 2(2)])
    have "\<forall>c \<in> set (children node). card (fst ` set ?hs1) < depth + card (ancestors ?hs1 c)"
    proof
      fix c
      assume "c \<in> set (children node)"
      then have "c \<in> set (children_of hs nodeId)" using Some by (simp add: children_of_def)
      with 2(2) have "parent_of hs c = Some nodeId" unfolding is_forest_def by blast
      from card_ancestors_child [OF 2(2) this] 2(3)
      show "card (fst ` set ?hs1) < depth + card (ancestors ?hs1 c)"
        by (simp add: links_keys [OF l1] links_ancestors [OF l1])
    qed
    from 2(1) [OF Some fo1 this]
    obtain hs' where "calculateNodeLevel_children depth ?hs1 (children node) (Suc lvl) = Some hs'"
      and "links hs' = links ?hs1" by blast
    with Some l1 show ?thesis by simp
  qed
next
  case (3 depth hs lvl)
  show ?case by simp
next
  case (4 depth hs childId rest lvl)
  from 4(4) have "card (fst ` set hs) < depth + card (ancestors hs childId)" by simp
  from 4(1) [OF 4(3) this]
  obtain hs1 where r: "calculateNodeLevel depth hs childId lvl = Some hs1"
    and l1: "links hs1 = links hs" by blast
  have "\<forall>c \<in> set rest. card (fst ` set hs1) < depth + card (ancestors hs1 c)"
    using 4(4) by (simp add: links_keys [OF l1] links_ancestors [OF l1])
  from 4(2) [OF r links_forest [OF l1 4(3)] this]
  obtain hs' where "calculateNodeLevel_children depth hs1 rest lvl = Some hs'"
    and "links hs' = links hs1" by blast
  with r l1 show ?case by simp
qed

lemma calculateLevels_loop_returns:
  "is_forest hs \<Longrightarrow> \<exists>hs'. calculateLevels_loop hs roots = Some hs' \<and> links hs' = links hs"
proof (induction roots arbitrary: hs)
  case Nil
  show ?case by simp
next
  case (Cons rootId roots)
  have "card (fst ` set hs) \<le> length hs"
    using card_image_le [of "set hs" fst] card_length [of hs] by simp
  then have "card (fst ` set hs) < Suc (length hs) + card (ancestors hs rootId)" by simp
  from calculateNodeLevel_returns [OF Cons.prems this]
  obtain hs1 where r: "calculateNodeLevel (Suc (length hs)) hs rootId 0 = Some hs1"
    and l1: "links hs1 = links hs" by blast
  from Cons.IH [OF links_forest [OF l1 Cons.prems]]
  obtain hs' where "calculateLevels_loop hs1 roots = Some hs'" and "links hs' = links hs1" by blast
  with r l1 show ?case by simp
qed

lemma buildHierarchy_is_forest:
  assumes "\<forall>c \<in> set concepts. ec_name c \<noteq> []"
  shows "\<exists>h. buildHierarchy concepts rels = Some h \<and> is_forest (hierarchy h)"
proof -
  let ?h = "inferMissingHierarchy (buildIsARelationships (initializeNodes concepts) rels) concepts"
  have "forest_state ?h"
    by (intro inferMissingHierarchy_forest_state buildIsARelationships_forest_state initializeNodes_forest_state assms)
  then have fo: "is_forest (hierarchy ?h)" by (simp add: forest_state_def)
  from calculateLevels_loop_returns [OF fo, of "rootNodes ?h"]
  obtain hs' where r: "calculateLevels_loop (hierarchy ?h) (rootNodes ?h) = Some hs'"
    and l: "links hs' = links (hierarchy ?h)" by blast
  from links_forest [OF l fo] r show ?thesis
    by (simp add: buildHierarchy_def calculateLevels_def)
qed

subsection \<open>Edges that would close a cycle are refused\<close>

lemma hasCycleDFS_sound:
  "acyclic (parent_edges (hierarchy h)) \<Longrightarrow>
   \<forall>k p. parent_of (hierarchy h) k = Some p \<longrightarrow> p \<noteq> [] \<Longrightarrow>
   \<forall>v \<in> set visited. (v, currentId) \<in> (parent_edges (hierarchy h))\<^sup>+ \<Longrightarrow>
   (currentId, targetId) \<in> (parent_edges (hierarchy h))\<^sup>* \<Longrightarrow>
   hasCycleDFS h currentId targetId visited"
proof (induction h currentId targetId visited rule: hasCycleDFS.induct)
  case (1 h currentId targetId visited)
  let ?E = "parent_edges (hierarchy h)"
  note acyc = "1.prems"(1) and ne = "1.prems"(2)
  show ?case
  proof (cases "currentId = targetId")
    case True
    then show ?thesis by (subst hasCycleDFS.simps) simp
  next
    case neq: False
    have nv: "currentId \<notin> set visited"
    proof
      assume "currentId \<in> set visited"
      with "1.prems"(3) have "(currentId, currentId) \<in> ?E\<^sup>+" by blast
      with acyc show False unfolding acyclic_def by blast
    qed
    from "1.prems"(4) neq obtain p where edge: "(currentId, p) \<in> ?E" and rest: "(p, targetId) \<in> ?E\<^sup>*"
      by (auto elim: converse_rtranclE)
    from edge have po: "parent_of (hierarchy h) currentId = Some p" by (simp add: parent_edges_def)
    then obtain current where cur: "map_of (hierarchy h) currentId = Some current"
      and par: "parent current = Some p"
      by (auto simp: parent_of_def split: option.splits)
    from ne po have pne: "p \<noteq> []" by blast
    have "\<forall>v \<in> set (currentId # visited). (v, p) \<in> ?E\<^sup>+"
      using "1.prems"(3) edge by (auto intro: trancl_into_trancl)
    from "1.IH" [OF neq nv cur par pne acyc ne this rest]
    have "hasCycleDFS h p targetId (currentId # visited)" .
    then show ?thesis using neq nv cur par pne by (subst hasCycleDFS.simps) simp
  qed
qed

lemma addParentChildRelationship_rejects:
  assumes inv: "forest_state h"
    and pn: "map_of (hierarchy h) pid = Some parentNode"
    and cn: "map_of (hierarchy h) cid = Some child"
    and chain: "(pid, cid) \<in> (parent_edges (hierarchy h))\<^sup>*"
  shows "addParentChildRelationship h parentNode child confidence = h"
proof -
  let ?hs = "hierarchy h"
  from inv have wk: "well_keyed ?hs" and fo: "is_forest ?hs" by (simp_all add: forest_state_def)
  from well_keyed_lookup [OF wk pn] have pid: "hn_id parentNode = pid" by simp
  from well_keyed_lookup [OF wk cn] have cid: "hn_id child = cid" by simp
  from fo have acyc: "acyclic (parent_edges ?hs)" by (simp add: is_forest_def)
  have pnes: "\<forall>k p. parent_of ?hs k = Some p \<longrightarrow> p \<noteq> []"
    using forest_parent_nonempty [OF wk fo] by blast
  have "wouldCreateCycle h pid cid"
    unfolding wouldCreateCycle_def
    by (rule hasCycleDFS_sound [OF acyc pnes _ chain]) simp
  then show ?thesis by (simp add: addParentChildRelationship_def pid cid)
qed

lemma single_parent:
  assumes "is_forest hs" and "c \<in> set (children_of hs p)" and "c \<in> set (children_of hs q)"
  shows "p = q"
proof -
  from assms(1,2) have "parent_of hs c = Some p" unfolding is_forest_def by blast
  moreover from assms(1,3) have "parent_of hs c = Some q" unfolding is_forest_def by blast
  ultimately show ?thesis by simp
qed

subsection \<open>Concept extraction yields no empty name\<close>

lemma names_update:
  "\<forall>(k, c) \<in> set m. ec_name c \<noteq> [] \<Longrightarrow> ec_name v \<noteq> [] \<Longrightarrow>
   \<forall>(k, c) \<in> set (AList.update name v m). ec_name c \<noteq> []"
  by (induction m) auto

lemma addOrUpdateConcept_names:
  assumes "addOrUpdateConcept m name ctxt = Some m'"
    and "\<forall>(k, c) \<in> set m. ec_name c \<noteq> []"
  shows "\<forall>(k, c) \<in> set m'. ec_name c \<noteq> []"
proof (cases "map_of m name")
  case (Some existing)
  from map_of_SomeD [OF Some] assms(2) have ne: "ec_name existing \<noteq> []" by blast
  from assms(1) Some
  have m': "m' = AList.update name
                  (existing\<lparr>frequency := Suc (frequency existing),
                             contexts := (if ctxt \<in> set (contexts existing) then contexts existing
                                          else contexts existing @ [ctxt])\<rparr>) m"
    by (simp add: addOrUpdateConcept_def)
  show ?thesis unfolding m' by (rule names_update [OF assms(2)]) (simp add: ne)
next
  case None
  with assms(1) obtain t conf where c: "calculateConceptConfidence name = Some conf"
    and m': "m' = AList.update name
               \<lparr>ec_name = name, ec_type = t, frequency = 1, contexts = [ctxt],
                ec_confidence = conf\<rparr> m"
    by (auto simp: addOrUpdateConcept_def split: Option.bind_splits)
  from c have ne: "name \<noteq> []"
    by (auto simp: calculateConceptConfidence_def first_is_upper_def)
  show ?thesis unfolding m' by (rule names_update [OF assms(2)]) (simp add: ne)
qed

lemma addConcepts_names:
  "addConcepts m names ctxt = Some m' \<Longrightarrow> \<forall>(k, c) \<in> set m. ec_name c \<noteq> [] \<Longrightarrow>
   \<forall>(k, c) \<in> set m'. ec_name c \<noteq> []"
proof (induction names arbitrary: m)
  case Nil
  then show ?case by simp
next
  case (Cons name names)
  from Cons.prems(1) obtain m1 where a: "addOrUpdateConcept m name ctxt = Some m1"
    and b: "addConcepts m1 names ctxt = Some m'"
    by (auto split: Option.bind_splits)
  from Cons.IH [OF b addOrUpdateConcept_names [OF a Cons.prems(2)]] show ?case .
qed

lemma extractConcepts_tiddler_names:
  assumes "extractConcepts_tiddler m tiddler = Some m'"
    and "\<forall>(k, c) \<in> set m. ec_name c \<noteq> []"
  shows "\<forall>(k, c) \<in> set m'. ec_name c \<noteq> []"
proof -
  from assms(1) obtain m1 m2 ws ps where
    a: "addConcepts m ws (tid_title tiddler) = Some m1"
    and b: "addConcepts m1 ps (tid_title tiddler) = Some m2"
    and c: "(case tid_tags tiddler of None \<Rightarrow> Some m2
             | Some tags \<Rightarrow> addConcepts m2 (map toLowerCase (filter (\<lambda>tag. tag \<noteq> []) tags))
                              (tid_title tiddler)) = Some m'"
    by (auto simp: extractConcepts_tiddler_def Let_def split: Option.bind_splits)
  note n2 = addConcepts_names [OF b addConcepts_names [OF a assms(2)]]
  show ?thesis
  proof (cases "tid_tags tiddler")
    case None
    with c n2 show ?thesis by simp
  next
    case (Some tags)
    with c have "addConcepts m2 (map toLowerCase (filter (\<lambda>tag. tag \<noteq> []) tags))
                   (tid_title tiddler) = Some m'" by simp
    from addConcepts_names [OF this n2] show ?thesis .
  qed
qed

lemma extractConcepts_loop_names:
  "extractConcepts_loop m tiddlers = Some m' \<Longrightarrow> \<forall>(k, c) \<in> set m. ec_name c \<noteq> [] \<Longrightarrow>
   \<forall>(k, c) \<in> set m'. ec_name c \<noteq> []"
proof (induction tiddlers arbitrary: m)
  case Nil
  then show ?case by simp
next
  case (Cons tiddler tiddlers)
  from Cons.prems(1) obtain m1 where a: "extractConcepts_tiddler m tiddler = Some m1"
    and b: "extractConcepts_loop m1 tiddlers = Some m'"
    by (auto split: Option.bind_splits)
  from Cons.IH [OF b extractConcepts_tiddler_names [OF a Cons.prems(2)]] show ?case .
qed

lemma extractConcepts_names_nonempty:
  assumes "extractConcepts tiddlers = Some concepts"
  shows "\<forall>c \<in> set concepts. ec_name c \<noteq> []"
proof -
  from assms obtain m where loop: "extractConcepts_loop [] tiddlers = Some m"
    and cs: "concepts = sort_key (\<lambda>c. - int (frequency c))
                          (filter (\<lambda>concept. frequency concept > 1) (map snd m))"
    by (auto simp: extractConcepts_def)
  from extractConcepts_loop_names [OF loop] have "\<forall>(k, c) \<in> set m. ec_name c \<noteq> []" by simp
  then show ?thesis unfolding cs by auto
qed

text \<open>
  So the hierarchy that is built from extracted concepts is a forest, whatever the
  relationships are.
\<close>

lemma buildHierarchy_of_extracted_is_forest:
  assumes "extractConcepts tiddlers = Some concepts"
  shows "\<exists>h. buildHierarchy concepts rels = Some h \<and> is_forest (hierarchy h)"
  by (rule buildHierarchy_is_forest [OF extractConcepts_names_nonempty [OF assms]])

subsection \<open>The forest property of \<open>buildHierarchy\<close>\<close>

text \<open>
  Claim C6. For concepts whose names are not empty, which are the concepts that concept
  extraction yields (lemma \<open>extractConcepts_names_nonempty\<close>), and for all relationships,
  \<open>buildHierarchy\<close> returns and the hierarchy it leaves is a forest: the parent edges form
  no directed cycle, and a node is listed among the children of the node that its parent
  field names and of no other node, so that no node has more than one parent. In every
  state of the builder (the states \<open>forest_state\<close>, which every step of \<open>buildHierarchy\<close>
  preserves), a candidate edge whose child is on the ancestor chain of the candidate
  parent, the parent itself included, is refused: \<open>addParentChildRelationship\<close> leaves the
  state as it is.
\<close>

theorem buildHierarchy_forest:
  "((\<forall>c \<in> set concepts. ec_name c \<noteq> []) \<longrightarrow>
      (\<exists>h. buildHierarchy concepts rels = Some h \<and> is_forest (hierarchy h) \<and>
           (\<forall>p q c. c \<in> set (children_of (hierarchy h) p) \<and> c \<in> set (children_of (hierarchy h) q)
                      \<longrightarrow> p = q))) \<and>
   (forest_state g \<and> map_of (hierarchy g) pid = Some parentNode \<and>
    map_of (hierarchy g) cid = Some child \<and> (pid, cid) \<in> (parent_edges (hierarchy g))\<^sup>* \<longrightarrow>
      addParentChildRelationship g parentNode child confidence = g)"
proof (intro conjI impI)
  assume "\<forall>c \<in> set concepts. ec_name c \<noteq> []"
  from buildHierarchy_is_forest [OF this, of rels]
  obtain h where h: "buildHierarchy concepts rels = Some h" and fo: "is_forest (hierarchy h)"
    by blast
  have "\<forall>p q c. c \<in> set (children_of (hierarchy h) p) \<and> c \<in> set (children_of (hierarchy h) q)
                   \<longrightarrow> p = q"
    using single_parent [OF fo] by blast
  with h fo
  show "\<exists>h. buildHierarchy concepts rels = Some h \<and> is_forest (hierarchy h) \<and>
           (\<forall>p q c. c \<in> set (children_of (hierarchy h) p) \<and> c \<in> set (children_of (hierarchy h) q)
                      \<longrightarrow> p = q)"
    by blast
next
  assume "forest_state g \<and> map_of (hierarchy g) pid = Some parentNode \<and>
          map_of (hierarchy g) cid = Some child \<and> (pid, cid) \<in> (parent_edges (hierarchy g))\<^sup>*"
  then show "addParentChildRelationship g parentNode child confidence = g"
    by (intro addParentChildRelationship_rejects [of g pid parentNode cid child]) simp_all
qed

theorem buildHierarchy_forest_witness:
  "(\<exists>h. buildHierarchy [bare_concept ''a'', bare_concept ''b''] [is_a ''a'' ''b''] = Some h \<and>
        is_forest (hierarchy h)) \<and>
   map_of (hierarchy two_level) ''a'' = Some node_a \<and>
   map_of (hierarchy two_level) ''b'' = Some node_b \<and>
   parent_of (hierarchy two_level) ''a'' = Some ''b'' \<and>
   addParentChildRelationship two_level node_a node_b (1 / 2) = two_level"
proof -
  have names: "\<forall>c \<in> set [bare_concept ''a'', bare_concept ''b'']. ec_name c \<noteq> []"
    by (simp add: bare_concept_def)
  have fs: "forest_state two_level"
    unfolding two_level_def
    by (intro buildIsARelationships_forest_state initializeNodes_forest_state)
       (simp add: bare_concept_def)
  have la: "map_of (hierarchy two_level) ''a'' = Some node_a" by code_simp
  have lb: "map_of (hierarchy two_level) ''b'' = Some node_b" by code_simp
  have po: "parent_of (hierarchy two_level) ''a'' = Some ''b''"
    by (simp add: parent_of_def la node_a_def)
  then have "(''a'', ''b'') \<in> parent_edges (hierarchy two_level)" by (simp add: parent_edges_def)
  then have chain: "(''a'', ''b'') \<in> (parent_edges (hierarchy two_level))\<^sup>*" by (rule r_into_rtrancl)
  from buildHierarchy_forest [where concepts = "[bare_concept ''a'', bare_concept ''b'']"
      and rels = "[is_a ''a'' ''b'']" and g = two_level and pid = "''a''" and parentNode = node_a
      and cid = "''b''" and child = node_b and confidence = "1 / 2"]
    names fs la lb po chain
  show ?thesis by blast
qed

text \<open>
  The condition on the names is needed. The guard \<open>if (child.parent) return\<close> takes a
  parent whose id is the empty string for no parent at all, and the walk of \<open>hasCycleDFS\<close>
  stops at such a parent. With a concept named by the empty string, which concept
  extraction never yields: (1) \<open>a\<close> is first made a child of the empty-named node and then
  of \<open>b\<close> as well, so it is listed among the children of two root nodes; (2) the two edges
  from \<open>a\<close> to the empty-named node and back are both accepted and form a cycle; (3) with
  the edges of (2) and the second edge of (1), the level computation recurses through
  that cycle and \<open>buildHierarchy\<close> does not return.
\<close>

lemma buildHierarchy_empty_name:
  "map_option node_links
     (buildHierarchy [bare_concept '''', bare_concept ''a'', bare_concept ''b'']
        [is_a ''a'' '''', is_a ''a'' ''b''])
     = Some [('''', None, [''a'']), (''a'', Some ''b'', []), (''b'', None, [''a'']),
             (''abstract'', None, [])] \<and>
   map_option (map hn_id \<circ> getRootNodes)
     (buildHierarchy [bare_concept '''', bare_concept ''a'', bare_concept ''b'']
        [is_a ''a'' '''', is_a ''a'' ''b''])
     = Some ['''', ''b'', ''abstract''] \<and>
   map_option node_links
     (buildHierarchy [bare_concept '''', bare_concept ''a''] [is_a ''a'' '''', is_a '''' ''a''])
     = Some [('''', Some ''a'', [''a'']), (''a'', Some '''', ['''']), (''abstract'', None, [])] \<and>
   buildHierarchy [bare_concept '''', bare_concept ''a'', bare_concept ''b'']
     [is_a ''a'' '''', is_a '''' ''a'', is_a ''a'' ''b''] = None"
  by code_simp

section \<open>Verification of the end-to-end scenario\<close>

subsection \<open>The two-document corpus\<close>

lemma extractConcepts_animal_corpus: "extractConcepts animal_corpus = Some animal_concepts"
  by code_simp

lemma extractRelationships_animal_corpus:
  "extractRelationships animal_corpus animal_concepts = animal_relationships"
  by code_simp

lemma buildHierarchy_animal_corpus:
  "map_option node_links (buildHierarchy animal_concepts animal_relationships)
     = Some [(''dogs'', Some ''mammals'', []), (''mammals'', None, [''dogs'']),
             (''animal'', None, []), (''abstract'', None, [])]"
  by code_simp

lemma validate_animal_corpus:
  "map_option (\<lambda>h.
        let report = OntologyValidator_validateOntology validationRules
                       (toOntologyClasses h ''2024-01-01T00:00:00.000Z'') [] []
        in (valid report, filter (\<lambda>e. err_severity e = Critical) (errors report)))
       (buildHierarchy animal_concepts animal_relationships)
     = Some (True, [])"
  by code_simp

text \<open>
  Claim C5, amended. On the corpus of the two documents \<open>Dogs are mammals. Dogs have fur.\<close>
  and \<open>Cats are mammals.\<close> (titled \<open>Note1\<close> and \<open>Note2\<close>), each tagged \<open>animal\<close>: concept
  extraction yields exactly the concepts \<open>dogs\<close>, \<open>mammals\<close> and \<open>animal\<close>, each with
  frequency 2 (words are not reduced to their singular; \<open>cats\<close> and \<open>fur\<close> occur once and
  are dropped); relationship extraction yields exactly one relationship, \<open>dogs is-a
  mammals\<close>; hierarchy building makes \<open>dogs\<close> the only child of \<open>mammals\<close>; and the
  validator, run on the classes of that hierarchy, reports \<open>valid = true\<close> with no
  critical error.
\<close>

theorem animal_corpus_pipeline:
  "map_option (map (\<lambda>c. (ec_name c, frequency c))) (extractConcepts animal_corpus)
     = Some [(''dogs'', 2), (''mammals'', 2), (''animal'', 2)] \<and>
   Option.bind (extractConcepts animal_corpus) (\<lambda>cs.
     Some (map (\<lambda>r. (er_source r, er_type r, er_target r)) (extractRelationships animal_corpus cs)))
     = Some [(''dogs'', ''is-a'', ''mammals'')] \<and>
   Option.bind (extractConcepts animal_corpus) (\<lambda>cs.
     map_option node_links (buildHierarchy cs (extractRelationships animal_corpus cs)))
     = Some [(''dogs'', Some ''mammals'', []), (''mammals'', None, [''dogs'']),
             (''animal'', None, []), (''abstract'', None, [])] \<and>
   Option.bind (extractConcepts animal_corpus) (\<lambda>cs.
     map_option (\<lambda>h.
        let report = OntologyValidator_validateOntology validationRules
                       (toOntologyClasses h ''2024-01-01T00:00:00.000Z'') [] []
        in (valid report, filter (\<lambda>e. err_severity e = Critical) (errors report)))
       (buildHierarchy cs (extractRelationships animal_corpus cs)))
     = Some (True, [])"
  by (simp only: extractConcepts_animal_corpus extractRelationships_animal_corpus
        buildHierarchy_animal_corpus validate_animal_corpus Option.bind.simps)
     (simp add: animal_concepts_def animal_relationships_def)

text \<open>
  The claim as stated fails: neither \<open>dog\<close> nor \<open>cat\<close> is among the extracted concepts,
  and no \<open>is-a\<close> relationship has \<open>cat\<close> as its source.
\<close>

theorem animal_corpus_counterexample:
  "map_option (\<lambda>cs. ''dog'' \<in> set (map ec_name cs)) (extractConcepts animal_corpus) = Some False \<and>
   map_option (\<lambda>cs. ''cat'' \<in> set (map ec_name cs)) (extractConcepts animal_corpus) = Some False \<and>
   map_option (\<lambda>cs. list_ex (\<lambda>r. er_type r = ''is-a'' \<and> er_source r = ''cat'')
                       (extractRelationships animal_corpus cs))
     (extractConcepts animal_corpus) = Some False"
  by (simp only: extractConcepts_animal_corpus extractRelationships_animal_corpus option.map)
     (simp add: animal_concepts_def animal_relationships_def)

end
